theory Spec2Isabelle
  imports Complex_Main "HOL-Library.Multiset" "HOL-Library.AList"
begin

section \<open>JavaScript strings\<close>

text \<open>
  A JavaScript string is a sequence of UTF-16 code units. The refusal detector depends on
  code units outside ASCII (curly quotes, the bullet, Unicode white space), so a string is
  a list of code units here, each an integer from 0 to 65535; \<open>js\<close> embeds an ASCII
  literal. The functions below are total on all integer lists.
\<close>

type_synonym jsstring = "int list"

definition js :: "string \<Rightarrow> jsstring" where
  "js s = map of_char s"

text \<open>White space as \<open>String.prototype.trim\<close> and the regex class \<open>\s\<close> see it.\<close>

definition is_space :: "int \<Rightarrow> bool" where
  "is_space c \<longleftrightarrow>
     (9 \<le> c \<and> c \<le> 13) \<or> c = 32 \<or> c = 160 \<or> c = 5760 \<or> (8192 \<le> c \<and> c \<le> 8202) \<or>
     c = 8232 \<or> c = 8233 \<or> c = 8239 \<or> c = 8287 \<or> c = 12288 \<or> c = 65279"

definition trim :: "jsstring \<Rightarrow> jsstring" where
  "trim s = rev (dropWhile is_space (rev (dropWhile is_space s)))"

definition NL :: int where
  "NL = 10"

text \<open>\<open>parts.join('\n\n')\<close>\<close>

fun join2 :: "jsstring list \<Rightarrow> jsstring" where
  "join2 [] = []"
| "join2 [p] = p"
| "join2 (p # q # ps) = p @ [NL, NL] @ join2 (q # ps)"

text \<open>\<open>text.split(/\n\n+/)\<close>: the separators are the maximal runs of two or more line feeds.\<close>

function split_paras :: "jsstring \<Rightarrow> jsstring list" where
  "split_paras [] = [[]]"
| "split_paras (c # cs) =
     (if c = NL \<and> (case cs of [] \<Rightarrow> False | d # _ \<Rightarrow> d = NL)
      then [] # split_paras (dropWhile (\<lambda>x. x = NL) cs)
      else (case split_paras cs of [] \<Rightarrow> [[c]] | p # ps \<Rightarrow> (c # p) # ps))"
  by pat_completeness auto
termination
  by (relation "measure length") (auto simp: length_dropWhile_le less_Suc_eq_le)

text \<open>\<open>text.split(/\s+/)\<close>: the separators are the maximal runs of white space.\<close>

function split_ws :: "jsstring \<Rightarrow> jsstring list" where
  "split_ws [] = [[]]"
| "split_ws (c # cs) =
     (if is_space c
      then [] # split_ws (dropWhile is_space cs)
      else (case split_ws cs of [] \<Rightarrow> [[c]] | p # ps \<Rightarrow> (c # p) # ps))"
  by pat_completeness auto
termination
  by (relation "measure length") (auto simp: length_dropWhile_le less_Suc_eq_le)

text \<open>\<open>countWords\<close> of \<open>graph/nodes/writer.ts\<close> (the continuity node has its own copy).\<close>

definition countWords :: "jsstring \<Rightarrow> nat" where
  "countWords text = length (filter (\<lambda>w. length w > 0) (split_ws text))"

text \<open>\<open>normalizeQuotes\<close> of \<open>utils/refusal-detection.ts\<close>.\<close>

definition normalizeQuote :: "int \<Rightarrow> int" where
  "normalizeQuote c =
     (if c = 8216 \<or> c = 8217 \<or> c = 8218 \<or> c = 8249 \<or> c = 8250 then 39
      else if c = 8220 \<or> c = 8221 \<or> c = 8222 \<or> c = 171 \<or> c = 187 then 34
      else c)"

definition normalizeQuotes :: "jsstring \<Rightarrow> jsstring" where
  "normalizeQuotes text = map normalizeQuote text"

section \<open>Regular expressions\<close>

text \<open>
  The fragment of JavaScript regular expressions the source uses: literals (with or without
  the \<open>i\<close> flag), the classes \<open>\d\<close>, \<open>\s\<close> and bracket sets, repetition of a class,
  sequence, alternation, \<open>?\<close>, and the assertions \<open>\b\<close>, \<open>^\<close>, \<open>$\<close>. A matcher state is
  the code unit before the current position (none at the start of the input) and the rest
  of the input; \<open>rx_match\<close> returns every state a match can end in, so \<open>rx_test\<close> is true
  exactly when the backtracking matcher of \<open>RegExp.prototype.test\<close> finds a match.
\<close>

datatype cc = CDigit | CSpace | CSet string

datatype rx =
    Lit string
  | LitI string
  | Cu int
  | Cls cc
  | Many cc nat
  | Seq rx rx
  | Alt rx rx
  | Opt rx
  | WordB
  | Bol
  | Eol

type_synonym mstate = "int option \<times> jsstring"

fun cc_mem :: "cc \<Rightarrow> int \<Rightarrow> bool" where
  "cc_mem CDigit c = (48 \<le> c \<and> c \<le> 57)"
| "cc_mem CSpace c = is_space c"
| "cc_mem (CSet cs) c = (c \<in> set (map of_char cs))"

definition is_word :: "int \<Rightarrow> bool" where
  "is_word c \<longleftrightarrow> (48 \<le> c \<and> c \<le> 57) \<or> (65 \<le> c \<and> c \<le> 90) \<or> c = 95 \<or> (97 \<le> c \<and> c \<le> 122)"

text \<open>
  Canonicalisation under the \<open>i\<close> flag (without \<open>u\<close>): a code unit from 128 on is never
  mapped below 128, so against the ASCII literals of the source only ASCII letters fold.
\<close>

definition canon :: "int \<Rightarrow> int" where
  "canon c = (if 97 \<le> c \<and> c \<le> 122 then c - 32 else c)"

fun lit_match :: "bool \<Rightarrow> string \<Rightarrow> int option \<Rightarrow> jsstring \<Rightarrow> mstate list" where
  "lit_match ci [] p s = [(p, s)]"
| "lit_match ci (c # cs) p [] = []"
| "lit_match ci (c # cs) p (x # xs) =
     (if (if ci then canon (of_char c) = canon x else of_char c = x)
      then lit_match ci cs (Some x) xs else [])"

fun many :: "cc \<Rightarrow> int option \<Rightarrow> jsstring \<Rightarrow> mstate list" where
  "many c p [] = [(p, [])]"
| "many c p (x # xs) = (p, x # xs) # (if cc_mem c x then many c (Some x) xs else [])"

definition word_before :: "int option \<Rightarrow> bool" where
  "word_before p = (case p of None \<Rightarrow> False | Some c \<Rightarrow> is_word c)"

definition word_after :: "jsstring \<Rightarrow> bool" where
  "word_after s = (case s of [] \<Rightarrow> False | c # _ \<Rightarrow> is_word c)"

fun rx_match :: "rx \<Rightarrow> mstate \<Rightarrow> mstate list" where
  "rx_match (Lit cs) st = lit_match False cs (fst st) (snd st)"
| "rx_match (LitI cs) st = lit_match True cs (fst st) (snd st)"
| "rx_match (Cu u) st =
     (case snd st of [] \<Rightarrow> [] | x # xs \<Rightarrow> if x = u then [(Some x, xs)] else [])"
| "rx_match (Cls c) st =
     (case snd st of [] \<Rightarrow> [] | x # xs \<Rightarrow> if cc_mem c x then [(Some x, xs)] else [])"
| "rx_match (Many c n) st =
     filter (\<lambda>st'. length (snd st') + n \<le> length (snd st)) (many c (fst st) (snd st))"
| "rx_match (Seq a b) st = concat (map (\<lambda>st'. rx_match b st') (rx_match a st))"
| "rx_match (Alt a b) st = rx_match a st @ rx_match b st"
| "rx_match (Opt a) st = rx_match a st @ [st]"
| "rx_match WordB st = (if word_before (fst st) \<noteq> word_after (snd st) then [st] else [])"
| "rx_match Bol st = (if fst st = None then [st] else [])"
| "rx_match Eol st = (if snd st = [] then [st] else [])"

fun rx_search :: "rx \<Rightarrow> int option \<Rightarrow> jsstring \<Rightarrow> bool" where
  "rx_search r p [] = (rx_match r (p, []) \<noteq> [])"
| "rx_search r p (x # xs) = (rx_match r (p, x # xs) \<noteq> [] \<or> rx_search r (Some x) xs)"

definition rx_test :: "rx \<Rightarrow> jsstring \<Rightarrow> bool" where
  "rx_test r s = rx_search r None s"

fun seqs :: "rx list \<Rightarrow> rx" where
  "seqs [] = Lit []"
| "seqs [r] = r"
| "seqs (r # rs) = Seq r (seqs rs)"

fun alts :: "rx list \<Rightarrow> rx" where
  "alts [] = Cls (CSet [])"
| "alts [r] = r"
| "alts (r # rs) = Alt r (alts rs)"

definition lits :: "string list \<Rightarrow> rx" where
  "lits ws = alts (map LitI ws)"

text \<open>\<open>'?\<close>, \<open>\*?\<close> and the verb group \<open>(?:produce|generate|provide|write|create)\<close>.\<close>

definition apos :: rx where
  "apos = Opt (Lit [CHR 0x27])"

definition star :: rx where
  "star = Opt (Lit ''*'')"

definition verbs :: rx where
  "verbs = lits [''produce'', ''generate'', ''provide'', ''write'', ''create'']"

section \<open>Refusal detection (\<open>utils/refusal-detection.ts\<close>)\<close>

definition REFUSAL_PATTERNS :: "rx list" where
  "REFUSAL_PATTERNS = [
     seqs [Bol, LitI ''I'', apos, LitI ''m sorry'', WordB],
     seqs [Bol, LitI ''I apologize'', WordB],
     seqs [WordB, LitI ''I can'', apos, LitI ''t '', verbs, LitI '' a full'', WordB],
     seqs [WordB, LitI ''I cannot '', verbs, LitI '' a full'', WordB],
     seqs [WordB, LitI ''I'', apos, LitI ''m unable to '', verbs, WordB],
     seqs [WordB, LitI ''I can'', apos, LitI ''t '', verbs, LitI '' '',
           Opt (lits [''a '', ''the '']), lits [''complete'', ''entire''], WordB],
     seqs [WordB, LitI ''I cannot '', verbs, LitI '' '',
           Opt (lits [''a '', ''the '']), lits [''complete'', ''entire''], WordB],
     seqs [WordB, LitI ''in '', lits [''a single'', ''one''], LitI '' response'', WordB],
     seqs [WordB, LitI ''due to '', lits [''output'', ''token'', ''length''], LitI '' limit'',
           Opt (LitI ''s''), WordB],
     seqs [WordB, LitI ''I '', star, LitI ''can'', star, LitI '' '',
           lits [''continue'', ''help'', ''provide'', ''begin'', ''start''], WordB],
     seqs [WordB, alts [LitI ''which option'',
                        Seq (LitI ''tell me '') (lits [''one of'', ''which'', ''how''])], WordB],
     seqs [WordB, LitI ''Begin '', lits [''Scene'', ''Segment'', ''Part''], LitI '' '', Cls CDigit],
     seqs [WordB, LitI ''multiple '', lits [''parts'', ''segments'', ''messages''], WordB],
     seqs [WordB, LitI ''However'', Cls (CSet '',:''), Many CSpace 0, LitI ''I '', star,
           LitI ''can'', star, WordB],
     seqs [WordB, LitI ''If you'', apos, LitI ''d like'', WordB],
     seqs [WordB, lits [''summarizing'', ''outlining'', ''drafting a shorter''], WordB],
     seqs [WordB, LitI ''I can '', Opt (LitI ''also ''), LitI ''help '',
           lits [''in other ways'', ''refine'', ''develop''], WordB],
     seqs [WordB, LitI ''I can'', apos, LitI ''t produce a full'', Cls (CSet ''- ''),
           Opt (LitI ''length ''), LitI ''chapter'', WordB],
     seqs [WordB, LitI ''I can'', apos, LitI ''t fulfill that request'', WordB],
     seqs [WordB, LitI ''I cannot fulfill that request'', WordB],
     seqs [WordB, lits [''offering'', ''provide''], LitI '' a shorter '',
           lits [''scene'', ''excerpt'', ''version''], WordB],
     seqs [WordB, LitI ''I cannot produce the output'', WordB],
     seqs [WordB, LitI ''as this request is framed'', WordB],
     seqs [WordB, LitI ''I can write a shorter version'', WordB],
     seqs [WordB, LitI ''we can adapt the constraints'', WordB],
     seqs [WordB, LitI ''what I'', apos, LitI ''m allowed to generate'', WordB],
     seqs [WordB, LitI ''I can produce it in multiple'', WordB],
     seqs [WordB, LitI ''I cannot follow'', WordB],
     seqs [WordB, LitI ''I can'', apos, LitI ''t comply'', WordB],
     seqs [WordB, LitI ''I'', apos, LitI ''m required to '', lits [''warn'', ''flag'', ''note''], WordB],
     seqs [WordB, lits [''choose'', ''select''], LitI '' '', lits [''one'', ''which''], LitI '' '',
           lits [''of'', ''option'']],
     seqs [WordB, LitI ''safety '',
           lits [''rules'', ''requirements'', ''guidelines'', ''constraints''], WordB],
     seqs [WordB, LitI ''override '', lits [''those'', ''these'', ''my'', ''safety''], LitI '' '',
           lits [''requirements'', ''rules'', ''constraints''], WordB],
     seqs [WordB, LitI ''To continue'', Opt (LitI '',''), LitI '' choose'', WordB],
     seqs [WordB, LitI ''I can still help'', WordB],
     seqs [WordB, LitI ''I '', star, LitI ''can'', star, LitI '' still '',
           lits [''help'', ''write'', ''produce''], WordB],
     seqs [WordB, LitI ''violate safety'', WordB],
     seqs [WordB, LitI ''exceed'', Opt (LitI ''s''), LitI '' safe output'', WordB],
     seqs [WordB, LitI ''prohibition on '', lits [''acknowledging'', ''offering''], WordB],
     seqs [WordB, LitI ''direct conflict with'', WordB],
     seqs [WordB, lits [''all are safe'', ''safely sized''], WordB]
   ]"

definition matchCount :: "jsstring \<Rightarrow> nat" where
  "matchCount s = length (filter (\<lambda>p. rx_test p s) REFUSAL_PATTERNS)"

record RefusalResult =
  isRefusal :: bool
  cleanedText :: jsstring

text \<open>The structural tests of \<open>stripRefusalPreamble\<close>, in the source's order.\<close>

definition rx_numbered :: rx where
  "rx_numbered = seqs [Bol, Many CDigit 1, Lit ''.'', Cls CSpace]"

definition rx_meta :: rx where
  "rx_meta = Seq Bol (alts [LitI ''Just tell me'', LitI ''Which option'',
       seqs [LitI ''If you'', apos, LitI ''d like''], LitI ''However'',
       seqs [LitI ''Or'', Opt (LitI '',''), LitI '' if''],
       seqs [LitI ''I '', star, LitI ''can'', star]])"

definition rx_markdown :: rx where
  "rx_markdown = seqs [Bol, Lit ''**'', lits [''Option'', ''Multi'', ''Shorter'', ''Condensed'']]"

definition rx_rule :: rx where
  "rx_rule = seqs [Bol, Lit ''--'', Many (CSet ''-'') 1, Eol]"

definition is_story_para :: "jsstring \<Rightarrow> bool" where
  "is_story_para p =
     (let para = normalizeQuotes (trim p) in
      if para = [] then False
      else if rx_test rx_numbered para then False
      else if rx_test rx_meta para then False
      else if rx_test rx_markdown para then False
      else if rx_test rx_rule para then False
      else if matchCount para \<ge> 1 then False
      else True)"

text \<open>The loop of \<open>stripRefusalPreamble\<close>: the index of the first story paragraph, if any.\<close>

fun storyStart :: "nat \<Rightarrow> jsstring list \<Rightarrow> nat option" where
  "storyStart i [] = None"
| "storyStart i (p # ps) = (if is_story_para p then Some i else storyStart (Suc i) ps)"

definition stripRefusalPreamble :: "jsstring \<Rightarrow> jsstring" where
  "stripRefusalPreamble text =
     (let paragraphs = split_paras text in
      case storyStart 0 paragraphs of
        Some i \<Rightarrow> if i > 0 then trim (join2 (drop i paragraphs)) else text
      | None \<Rightarrow> text)"

definition detectRefusal :: "jsstring \<Rightarrow> RefusalResult" where
  "detectRefusal text =
     (let trimmed = trim text in
      if trimmed = [] then \<lparr>isRefusal = False, cleanedText = trimmed\<rparr>
      else
        let normalized = normalizeQuotes trimmed;
            head = take 500 normalized
        in if matchCount head < 2 then \<lparr>isRefusal = False, cleanedText = trimmed\<rparr>
           else \<lparr>isRefusal = True, cleanedText = stripRefusalPreamble trimmed\<rparr>)"

text \<open>The structural tests of \<open>stripRefusalContent\<close>.\<close>

definition rx_bullet :: rx where
  "rx_bullet = seqs [Bol, alts [Cu 8226, Lit ''*'', Lit ''-'', Seq (Many CDigit 1) (Lit ''.'')],
                     Cls CSpace]"

definition rx_shorter :: rx where
  "rx_shorter = seqs [WordB, lits [''shorter'', ''condensed'', ''outline'', ''serialized'',
       ''multi-message'', ''rewrite'', ''focused''], WordB]"

definition rx_option :: rx where
  "rx_option = seqs [WordB, lits [''option'', ''choose'', ''version'', ''alternative''], WordB]"

definition drop_para :: "jsstring \<Rightarrow> bool" where
  "drop_para trimmed =
     (let normalized = normalizeQuotes trimmed;
          isOptionList = rx_test rx_bullet trimmed \<and>
            (rx_test rx_shorter normalized \<or> rx_test rx_option normalized)
      in matchCount normalized \<ge> 2 \<or> isOptionList)"

definition keep_para :: "jsstring \<Rightarrow> bool" where
  "keep_para para =
     (let trimmed = trim para in if trimmed = [] then True else \<not> drop_para trimmed)"

definition stripRefusalContent :: "jsstring \<Rightarrow> jsstring" where
  "stripRefusalContent text =
     (if trim text = [] then text
      else trim (join2 (filter keep_para (split_paras text))))"

text \<open>Sample inputs: a line of prose with one refusal-like phrase, and a two-pattern refusal.\<close>

definition dialogue_text :: jsstring where
  "dialogue_text = js ''  If you'' @ [8217] @ js ''d like tea, sit. ''"

definition apology_text :: jsstring where
  "apology_text = js ''I'' @ [8217] @ js ''m sorry. I can'' @ [39] @ js ''t comply.''"

text \<open>A line of dialogue with one refusal-like phrase, \<open>I can still help\<close>, which two entries
  of the pattern library match.\<close>

definition help_phrase :: jsstring where
  "help_phrase = js ''I can still help''"

definition help_text :: jsstring where
  "help_text = [34] @ help_phrase @ js '' you carry the boxes,'' @ [34] @ js '' said Tom.''"

section \<open>Auxiliary notions for the analysis of paragraphs\<close>

text \<open>Trimming on one side; \<open>nonn\<close> holds of a string without two adjacent line feeds; a
  list of paragraphs is \<open>proper\<close> when joining it and splitting the result gives it back.\<close>

definition ltrim :: "jsstring \<Rightarrow> jsstring" where
  "ltrim s = dropWhile is_space s"

definition rtrim :: "jsstring \<Rightarrow> jsstring" where
  "rtrim s = rev (dropWhile is_space (rev s))"

fun nonn :: "jsstring \<Rightarrow> bool" where
  "nonn [] = True"
| "nonn [c] = True"
| "nonn (a # b # r) = (if a = NL \<and> b = NL then False else nonn (b # r))"

definition starts_nl :: "jsstring \<Rightarrow> bool" where
  "starts_nl s = (case s of [] \<Rightarrow> False | c # _ \<Rightarrow> c = NL)"

definition ends_nl :: "jsstring \<Rightarrow> bool" where
  "ends_nl s = starts_nl (rev s)"

definition proper :: "jsstring list \<Rightarrow> bool" where
  "proper ks = (list_all nonn ks \<and> list_all (\<lambda>p. \<not> ends_nl p) (butlast ks) \<and>
     list_all (\<lambda>p. \<not> starts_nl p) (tl ks) \<and> list_all (\<lambda>p. p \<noteq> []) (butlast (tl ks)))"

text \<open>A text with a refusal block and an option list between two paragraphs of prose.\<close>

definition scrub_text :: jsstring where
  "scrub_text = js ''Rain fell.'' @ [NL, NL, NL] @ js ''I'' @ [8217] @ js ''m sorry. I can'' @ [39] @
     js ''t comply.'' @ [NL, NL] @ js ''- a shorter option'' @ [NL, NL] @ js ''The end. ''"

section \<open>Token budget (\<open>TokenBudget\<close>, unnamed part 011)\<close>

record ContextItem =
  key :: jsstring
  content :: jsstring
  priority :: int
  required :: bool

record AssembledContext =
  ctx_text :: jsstring
  totalTokens :: nat
  includedItems :: "jsstring list"
  droppedItems :: "jsstring list"

text \<open>\<open>Math.ceil(text.length / 4)\<close>\<close>

definition estimateTokens :: "jsstring \<Rightarrow> nat" where
  "estimateTokens t = (length t + 3) div 4"

text \<open>The local variables of \<open>buildContext\<close>: \<open>parts\<close>, \<open>included\<close>, \<open>dropped\<close>, \<open>totalTokens\<close>.\<close>

record bc_state =
  parts :: "jsstring list"
  included :: "jsstring list"
  dropped :: "jsstring list"
  total :: nat

definition include_item :: "ContextItem \<Rightarrow> bc_state \<Rightarrow> bc_state" where
  "include_item item st =
     st\<lparr>parts := parts st @ [content item],
        included := included st @ [key item],
        total := total st + estimateTokens (content item)\<rparr>"

text \<open>First pass: every required item, whatever the budget.\<close>

fun requiredPass :: "ContextItem list \<Rightarrow> bc_state \<Rightarrow> bc_state" where
  "requiredPass [] st = st"
| "requiredPass (item # rest) st =
     requiredPass rest (if required item then include_item item st else st)"

text \<open>Second pass: the optional items, each included whole while it fits, dropped otherwise.\<close>

fun optionalPass :: "int \<Rightarrow> ContextItem list \<Rightarrow> bc_state \<Rightarrow> bc_state" where
  "optionalPass budget [] st = st"
| "optionalPass budget (item # rest) st =
     optionalPass budget rest
       (if required item then st
        else if int (total st + estimateTokens (content item)) \<le> budget
             then include_item item st
             else st\<lparr>dropped := dropped st @ [key item]\<rparr>)"

text \<open>\<open>[...items].sort((a, b) => b.priority - a.priority)\<close>: a stable sort, highest priority
  first.\<close>

definition sortByPriority :: "ContextItem list \<Rightarrow> ContextItem list" where
  "sortByPriority items = sort_key (\<lambda>i. - priority i) items"

definition buildContext :: "ContextItem list \<Rightarrow> int \<Rightarrow> AssembledContext" where
  "buildContext items budget =
     (let sorted = sortByPriority items;
          st = optionalPass budget sorted
                 (requiredPass sorted \<lparr>parts = [], included = [], dropped = [], total = 0\<rparr>)
      in \<lparr>ctx_text = join2 (parts st), totalTokens = total st,
          includedItems = included st, droppedItems = dropped st\<rparr>)"

text \<open>A required plan that alone exceeds the budget, and two optional items.\<close>

definition budget_items :: "ContextItem list" where
  "budget_items =
     [\<lparr>key = js ''memory'', content = js ''abcdefgh'', priority = 40, required = False\<rparr>,
      \<lparr>key = js ''plan'', content = js ''twelve chars'', priority = 100, required = True\<rparr>,
      \<lparr>key = js ''note'', content = [], priority = 60, required = False\<rparr>]"

section \<open>Outline edits (\<open>BookSession.updateOutline\<close>)\<close>

record ChapterPlan =
  number :: int
  title :: jsstring
  summary :: jsstring
  targetWords :: int
  keyEvents :: "jsstring list"
  characters :: "jsstring list"

text \<open>
  \<open>updateOutline\<close> copies the array of chapters but not the chapter objects, and writes to
  the objects through the references the array holds. The outline is therefore a list of
  references into a store of chapter objects; \<open>fresh\<close> is the next unused reference.
\<close>

record outline_store =
  objs :: "nat \<Rightarrow> ChapterPlan"
  fresh :: nat
  chapters :: "nat list"

record UpdateChapter =
  u_number :: int
  u_title :: "jsstring option"
  u_summary :: "jsstring option"
  u_targetWords :: "int option"
  u_keyEvents :: "jsstring list option"

record AddChapter =
  afterChapter :: int
  a_title :: jsstring
  a_summary :: jsstring
  a_targetWords :: "int option"

record MergeChapters =
  m_chapters :: "int \<times> int"
  newTitle :: jsstring

text \<open>The chapter edits of \<open>OutlineChanges\<close>; an absent field is \<open>None\<close>. (The fields for the
  synopsis, the themes, the audience and the character profiles do not touch the chapters.)\<close>

record OutlineChanges =
  updateChapter :: "UpdateChapter list option"
  addChapter :: "AddChapter list option"
  removeChapters :: "int list option"
  reorderChapters :: "int list option"
  mergeChapters :: "MergeChapters list option"

text \<open>\<open>outline.chapters.find(c => c.number === n)\<close> and \<open>findIndex\<close>.\<close>

definition findChapter :: "outline_store \<Rightarrow> int \<Rightarrow> nat option" where
  "findChapter st n = List.find (\<lambda>r. number (objs st r) = n) (chapters st)"

fun findIndexFrom :: "nat \<Rightarrow> (nat \<Rightarrow> ChapterPlan) \<Rightarrow> nat list \<Rightarrow> int \<Rightarrow> nat option" where
  "findIndexFrom i h [] n = None"
| "findIndexFrom i h (r # rs) n = (if number (h r) = n then Some i else findIndexFrom (Suc i) h rs n)"

definition applyRemove :: "int list \<Rightarrow> outline_store \<Rightarrow> outline_store" where
  "applyRemove ns st = st\<lparr>chapters := filter (\<lambda>r. number (objs st r) \<notin> set ns) (chapters st)\<rparr>"

definition setField :: "nat \<Rightarrow> (ChapterPlan \<Rightarrow> ChapterPlan) \<Rightarrow> outline_store \<Rightarrow> outline_store" where
  "setField r f st = st\<lparr>objs := (objs st)(r := f (objs st r))\<rparr>"

definition applyUpdate1 :: "UpdateChapter \<Rightarrow> outline_store \<Rightarrow> outline_store" where
  "applyUpdate1 u st =
     (case findChapter st (u_number u) of
        None \<Rightarrow> st
      | Some ch \<Rightarrow>
          let st1 = (case u_title u of None \<Rightarrow> st | Some t \<Rightarrow> setField ch (\<lambda>c. c\<lparr>title := t\<rparr>) st);
              st2 = (case u_summary u of None \<Rightarrow> st1 | Some s \<Rightarrow> setField ch (\<lambda>c. c\<lparr>summary := s\<rparr>) st1);
              st3 = (case u_targetWords u of None \<Rightarrow> st2
                     | Some w \<Rightarrow> setField ch (\<lambda>c. c\<lparr>targetWords := w\<rparr>) st2)
          in (case u_keyEvents u of None \<Rightarrow> st3
              | Some k \<Rightarrow> setField ch (\<lambda>c. c\<lparr>keyEvents := k\<rparr>) st3))"

text \<open>A new chapter object, numbered 0 until the renumbering, spliced in after the chapter
  named or pushed at the end.\<close>

definition applyAdd1 :: "int \<Rightarrow> AddChapter \<Rightarrow> outline_store \<Rightarrow> outline_store" where
  "applyAdd1 defaultWords a st =
     (let r = fresh st;
          newChapter = \<lparr>number = 0, title = a_title a, summary = a_summary a,
             targetWords = (case a_targetWords a of None \<Rightarrow> defaultWords | Some w \<Rightarrow> w),
             keyEvents = [], characters = []\<rparr>;
          h = (objs st)(r := newChapter)
      in case findIndexFrom 0 (objs st) (chapters st) (afterChapter a) of
           Some i \<Rightarrow> st\<lparr>objs := h, fresh := Suc r,
                        chapters := take (Suc i) (chapters st) @ [r] @ drop (Suc i) (chapters st)\<rparr>
         | None \<Rightarrow> st\<lparr>objs := h, fresh := Suc r, chapters := chapters st @ [r]\<rparr>)"

text \<open>\<open>[...new Set(xs)]\<close>: the first occurrence of each element, in order.\<close>

definition dedupe :: "'a list \<Rightarrow> 'a list" where
  "dedupe xs = rev (remdups (rev xs))"

definition applyMerge1 :: "MergeChapters \<Rightarrow> outline_store \<Rightarrow> outline_store" where
  "applyMerge1 m st =
     (let num1 = fst (m_chapters m); num2 = snd (m_chapters m) in
      case (findChapter st num1, findChapter st num2) of
        (Some ch1, Some ch2) \<Rightarrow>
          let st1 = setField ch1 (\<lambda>c. c\<lparr>title := newTitle m\<rparr>) st;
              st2 = setField ch1 (\<lambda>c. c\<lparr>summary := summary c @ js '' '' @ summary (objs st1 ch2)\<rparr>) st1;
              st3 = setField ch1 (\<lambda>c. c\<lparr>targetWords := targetWords c + targetWords (objs st2 ch2)\<rparr>) st2;
              st4 = setField ch1 (\<lambda>c. c\<lparr>keyEvents := keyEvents c @ keyEvents (objs st3 ch2)\<rparr>) st3;
              st5 = setField ch1
                      (\<lambda>c. c\<lparr>characters := dedupe (characters c @ characters (objs st4 ch2))\<rparr>) st4
          in st5\<lparr>chapters := filter (\<lambda>r. number (objs st5 r) \<noteq> num2) (chapters st5)\<rparr>
      | _ \<Rightarrow> st)"

text \<open>\<open>reordered\<close>: for each number asked for, the reference \<open>find\<close> returns, if any.\<close>

definition applyReorder :: "int list \<Rightarrow> outline_store \<Rightarrow> outline_store" where
  "applyReorder ns st = st\<lparr>chapters := List.map_filter (findChapter st) ns\<rparr>"

text \<open>\<open>outline.chapters.forEach((ch, i) => { ch.number = i + 1; })\<close>: one write per entry of
  the array, in order.\<close>

fun renumber :: "int \<Rightarrow> nat list \<Rightarrow> (nat \<Rightarrow> ChapterPlan) \<Rightarrow> (nat \<Rightarrow> ChapterPlan)" where
  "renumber i [] h = h"
| "renumber i (r # rs) h = renumber (i + 1) rs (h(r := (h r)\<lparr>number := i + 1\<rparr>))"

definition renumberAll :: "outline_store \<Rightarrow> outline_store" where
  "renumberAll st = st\<lparr>objs := renumber 0 (chapters st) (objs st)\<rparr>"

definition applyOpt :: "'a option \<Rightarrow> ('a \<Rightarrow> outline_store \<Rightarrow> outline_store) \<Rightarrow> outline_store \<Rightarrow> outline_store" where
  "applyOpt x f st = (case x of None \<Rightarrow> st | Some v \<Rightarrow> f v st)"

text \<open>The chapter part of \<open>updateOutline\<close>, in the source's order: remove, update, add, merge,
  reorder, renumber. \<open>defaultWords\<close> is the word target a new chapter gets when it names none.\<close>

definition updateOutline :: "int \<Rightarrow> OutlineChanges \<Rightarrow> outline_store \<Rightarrow> outline_store" where
  "updateOutline defaultWords changes st =
     (let s1 = applyOpt (removeChapters changes) applyRemove st;
          s2 = applyOpt (updateChapter changes) (\<lambda>us s. fold applyUpdate1 us s) s1;
          s3 = applyOpt (addChapter changes) (\<lambda>as s. fold (applyAdd1 defaultWords) as s) s2;
          s4 = applyOpt (mergeChapters changes) (\<lambda>ms s. fold applyMerge1 ms s) s3;
          s5 = applyOpt (reorderChapters changes) applyReorder s4
      in renumberAll s5)"

text \<open>What a reader of the outline sees: the chapter objects in array order.\<close>

definition outline_chapters :: "outline_store \<Rightarrow> ChapterPlan list" where
  "outline_chapters st = map (objs st) (chapters st)"

definition chapter_numbers :: "outline_store \<Rightarrow> int list" where
  "chapter_numbers st = map number (outline_chapters st)"

text \<open>A well-formed store: every reference of the array is allocated and occurs once, as in
  an outline parsed from a generation result.\<close>

definition wf_store :: "outline_store \<Rightarrow> bool" where
  "wf_store st = (distinct (chapters st) \<and> list_all (\<lambda>r. r < fresh st) (chapters st))"

definition plan :: "int \<Rightarrow> string \<Rightarrow> ChapterPlan" where
  "plan n t = \<lparr>number = n, title = js t, summary = [], targetWords = 1000,
              keyEvents = [], characters = []\<rparr>"

definition outline3 :: outline_store where
  "outline3 = \<lparr>objs = (\<lambda>r. if r = 0 then plan 1 ''One''
                            else if r = 1 then plan 2 ''Two'' else plan 3 ''Three''),
              fresh = 3, chapters = [0, 1, 2]\<rparr>"

definition no_changes :: OutlineChanges where
  "no_changes = \<lparr>updateChapter = None, addChapter = None, removeChapters = None,
                 reorderChapters = None, mergeChapters = None\<rparr>"

section \<open>The session controller (\<open>book-session.ts\<close>)\<close>

datatype ChapterStatus = Pending | Generating | Approved | Failed

datatype Phase = Idle | OutlinePhase | Writing | Complete

text \<open>The errors the chapter operations throw. \<open>generateChapter\<close> has its own approval
  error; \<open>rewriteChapter\<close> and \<open>generateAllRemaining\<close> share a shorter one. A failed
  generation call carries the provider's message; \<open>NoOutline\<close> is the \<open>TypeError\<close> of
  reading \<open>this.state.outline!\<close> when there is no outline (its message is the engine's).\<close>

datatype error =
    OutlineNotApproved
  | OutlineMustBeApprovedFirst
  | NoOutline
  | NoPendingChapters
  | ChapterNotFound int
  | ChapterNotGenerated int
  | ProviderError jsstring

text \<open>A whole number as a template literal prints it.\<close>

function digits :: "nat \<Rightarrow> jsstring" where
  "digits n = (if n < 10 then [48 + int n] else digits (n div 10) @ [48 + int (n mod 10)])"
  by pat_completeness auto
termination
  by (relation "measure id") auto

declare digits.simps [simp del]

definition show_int :: "int \<Rightarrow> jsstring" where
  "show_int i = (if i < 0 then 45 # digits (nat (- i)) else digits (nat i))"

definition error_message :: "error \<Rightarrow> jsstring" where
  "error_message e =
     (case e of
        OutlineNotApproved \<Rightarrow>
          js ''Outline must be approved before generating chapters. Call approveOutline() first.''
      | OutlineMustBeApprovedFirst \<Rightarrow> js ''Outline must be approved first.''
      | NoOutline \<Rightarrow> js ''Cannot read properties of null (reading '' @ [39] @ js ''chapters'' @
          [39] @ js '')''
      | NoPendingChapters \<Rightarrow> js ''No pending chapters to generate.''
      | ChapterNotFound n \<Rightarrow> js ''Chapter '' @ show_int n @ js '' not found in outline.''
      | ChapterNotGenerated n \<Rightarrow> js ''Chapter '' @ show_int n @ js '' has not been generated yet.''
      | ProviderError m \<Rightarrow> m)"

record DetailedChapterPlan =
  chapterNumber :: int
  planTitle :: jsstring
  planTargetWords :: int

record EditResult =
  e_overall :: int
  e_approved :: bool
  e_rewriteInstructions :: "jsstring option"

record EditCycleRecord =
  cycle :: nat
  h_approved :: bool

record ChapterContent =
  c_number :: int
  c_title :: jsstring
  c_content :: jsstring
  c_wordCount :: nat
  c_summary :: jsstring
  c_editCount :: nat
  c_approved :: bool

record ChapterResult =
  r_chapter :: ChapterContent
  r_targetWords :: int
  r_meetsTarget :: bool
  r_editHistory :: "EditCycleRecord list"

datatype event =
    ChapterPlanGenerated int
  | ChapterWritten int nat
  | ExpandAttempt int nat nat int
  | RefusalDetected int nat
  | EditCycleEvent int nat bool
  | WordCountWarning int int nat
  | ChapterComplete int nat
  | ChapterFailed int jsstring

text \<open>
  The generation calls are the environment. Call number \<open>k\<close> of a session either is rejected
  with a message (\<open>Inl\<close>) or returns its result; the three fields answer \<open>generateText\<close>,
  \<open>generateObject\<close> with the plan schema and \<open>generateObject\<close> with the edit-result schema.
  Prompts, temperatures and token limits only parametrise the call and are left out.
\<close>

record world =
  gen_text :: "nat \<Rightarrow> jsstring + jsstring"
  gen_plan :: "nat \<Rightarrow> jsstring + DetailedChapterPlan"
  gen_edit :: "nat \<Rightarrow> jsstring + EditResult"

text \<open>The configuration the session reads: \<open>maxEditCycles\<close>, \<open>wordConfig.tolerance\<close>,
  \<open>wordConfig.minWords\<close> (each optional), and whether a continuity model is registered.
  Tolerances are rationals here, where the source computes with doubles.\<close>

record config =
  maxEditCycles :: "int option"
  tolerance :: "rat option"
  minWords :: "int option"
  hasContinuityModel :: bool

text \<open>\<open>SessionState\<close>, with the list of emitted events and the number of generation calls
  made so far. The two maps are association lists in insertion order, as a JavaScript
  \<open>Map\<close> is; the outline is read by value here.\<close>

record session =
  outline :: "ChapterPlan list option"
  outlineApproved :: bool
  s_chapters :: "(int \<times> ChapterContent) list"
  chapterStatuses :: "(int \<times> ChapterStatus) list"
  rollingSummary :: jsstring
  previousChapterEnding :: jsstring
  costs :: "string list"
  phase :: Phase
  events :: "event list"
  calls :: nat

definition addCostEntry :: "string \<Rightarrow> session \<Rightarrow> session" where
  "addCostEntry step st = st\<lparr>costs := costs st @ [step]\<rparr>"

definition emit :: "event \<Rightarrow> session \<Rightarrow> session" where
  "emit e st = st\<lparr>events := events st @ [e]\<rparr>"

definition setStatus :: "int \<Rightarrow> ChapterStatus \<Rightarrow> session \<Rightarrow> session" where
  "setStatus n s st = st\<lparr>chapterStatuses := AList.update n s (chapterStatuses st)\<rparr>"

definition getStatus :: "session \<Rightarrow> int \<Rightarrow> ChapterStatus option" where
  "getStatus st n = map_of (chapterStatuses st) n"

definition generateText :: "world \<Rightarrow> session \<Rightarrow> (jsstring + jsstring) \<times> session" where
  "generateText w st = (gen_text w (calls st), st\<lparr>calls := Suc (calls st)\<rparr>)"

definition generatePlanObject :: "world \<Rightarrow> session \<Rightarrow> (jsstring + DetailedChapterPlan) \<times> session" where
  "generatePlanObject w st = (gen_plan w (calls st), st\<lparr>calls := Suc (calls st)\<rparr>)"

definition generateEditObject :: "world \<Rightarrow> session \<Rightarrow> (jsstring + EditResult) \<times> session" where
  "generateEditObject w st = (gen_edit w (calls st), st\<lparr>calls := Suc (calls st)\<rparr>)"

definition generateDetailedPlan :: "world \<Rightarrow> session \<Rightarrow> (error + DetailedChapterPlan) \<times> session" where
  "generateDetailedPlan w st =
     (case generatePlanObject w st of
        (Inl m, st1) \<Rightarrow> (Inl (ProviderError m), st1)
      | (Inr detailedPlan, st1) \<Rightarrow> (Inr detailedPlan, addCostEntry ''planning'' st1))"

subsection \<open>\<open>writeChapter\<close>: the refusal-retry loop\<close>

definition maxRefusalRetries :: nat where
  "maxRefusalRetries = 3"

function writeAttempts ::
  "world \<Rightarrow> int \<Rightarrow> nat \<Rightarrow> jsstring \<Rightarrow> nat \<Rightarrow> session \<Rightarrow> (error + jsstring) \<times> session" where
  "writeAttempts w ch attempt bestText bestWordCount st =
     (if attempt \<le> maxRefusalRetries then
        (case generateText w st of
           (Inl m, st1) \<Rightarrow> (Inl (ProviderError m), st1)
         | (Inr txt, st1) \<Rightarrow>
             let st2 = addCostEntry (if attempt = 0 then ''writing'' else ''writing_refusal_retry'') st1;
                 refusal = detectRefusal txt
             in if isRefusal refusal then
                  let st3 = emit (RefusalDetected ch (attempt + 1)) st2;
                      cleanedRefusal = detectRefusal (cleanedText refusal);
                      cleanedWordCount = countWords (cleanedText refusal)
                  in if isRefusal cleanedRefusal then
                       writeAttempts w ch (attempt + 1) bestText bestWordCount st3
                     else if cleanedWordCount > bestWordCount then
                       writeAttempts w ch (attempt + 1) (cleanedText refusal) cleanedWordCount st3
                     else writeAttempts w ch (attempt + 1) bestText bestWordCount st3
                else (Inr txt, st2))
      else (Inr (if bestWordCount \<ge> 100 then bestText else []), st))"
  by pat_completeness auto
termination
  by (relation "measure (\<lambda>(w, ch, attempt, bestText, bestWordCount, st). Suc maxRefusalRetries - attempt)")
     auto

declare writeAttempts.simps [simp del]

definition writeChapter :: "world \<Rightarrow> DetailedChapterPlan \<Rightarrow> session \<Rightarrow> (error + jsstring) \<times> session" where
  "writeChapter w pl st = writeAttempts w (chapterNumber pl) 0 [] 0 st"

subsection \<open>\<open>expandIfNeeded\<close>: the expand loop\<close>

text \<open>\<open>text.split('\n')\<close> and \<open>lines.join('\n')\<close>\<close>

fun split_lines :: "jsstring \<Rightarrow> jsstring list" where
  "split_lines [] = [[]]"
| "split_lines (c # cs) =
     (if c = NL then [] # split_lines cs
      else (case split_lines cs of [] \<Rightarrow> [[c]] | l # ls \<Rightarrow> (c # l) # ls))"

fun join1 :: "jsstring list \<Rightarrow> jsstring" where
  "join1 [] = []"
| "join1 [l] = l"
| "join1 (l # m # ls) = l @ [NL] @ join1 (m # ls)"

definition rx_expand_meta :: rx where
  "rx_expand_meta = Seq Bol (alts [LitI ''Below is'', LitI ''Here is'',
       seqs [LitI ''Here'', Lit [CHR 0x27], LitI ''s''], LitI ''The following is'',
       seqs [LitI ''I'', Lit [CHR 0x27], LitI ''ve expanded''], LitI ''This is the'',
       LitI ''The expanded''])"

definition rx_dashes :: rx where
  "rx_dashes = seqs [Bol, Many (CSet ''-'') 3, Eol]"

text \<open>The loop of \<open>stripExpandPreamble\<close> over the first five lines; the result is
  \<open>startIdx\<close>.\<close>

fun skipPreamble :: "nat \<Rightarrow> jsstring list \<Rightarrow> nat \<Rightarrow> nat" where
  "skipPreamble i [] startIdx = startIdx"
| "skipPreamble i (l # ls) startIdx =
     (if i < 5 then
        (let line = trim l in
         if line = [] then skipPreamble (i + 1) ls (i + 1)
         else if rx_test rx_expand_meta line then skipPreamble (i + 1) ls (i + 1)
         else if rx_test rx_dashes line then skipPreamble (i + 1) ls (i + 1)
         else startIdx)
      else startIdx)"

definition stripExpandPreamble :: "jsstring \<Rightarrow> jsstring" where
  "stripExpandPreamble t =
     (let lines = split_lines t; startIdx = skipPreamble 0 lines 0
      in if startIdx > 0 then trim (join1 (drop startIdx lines)) else t)"

definition the_tolerance :: "config \<Rightarrow> rat" where
  "the_tolerance cfg = (case tolerance cfg of None \<Rightarrow> 15 / 100 | Some t \<Rightarrow> t)"

text \<open>\<open>Math.floor(targetWords * (1 - tolerance))\<close>\<close>

definition minAcceptable :: "config \<Rightarrow> int \<Rightarrow> int" where
  "minAcceptable cfg target = \<lfloor>of_int target * (1 - the_tolerance cfg)\<rfloor>"

text \<open>
  The \<open>while\<close> loop of \<open>expandIfNeeded\<close>, with its variables \<open>current\<close>, \<open>wordCount\<close> and
  \<open>attempts\<close>. \<open>hasPlan\<close> says whether the caller passed the detailed plan.
\<close>

function expandLoop ::
  "world \<Rightarrow> int \<Rightarrow> int \<Rightarrow> int \<Rightarrow> nat \<Rightarrow> bool \<Rightarrow> jsstring \<Rightarrow> nat \<Rightarrow> nat \<Rightarrow> session \<Rightarrow>
   (error + jsstring) \<times> session" where
  "expandLoop w ch target minAcc maxAttempts hasPlan current wordCount attempts st =
     (if int wordCount < minAcc \<and> attempts < maxAttempts then
        (let st1 = emit (ExpandAttempt ch (attempts + 1) wordCount target) st in
         case generateText w st1 of
           (Inl m, st2) \<Rightarrow> (Inl (ProviderError m), st2)
         | (Inr rawText, st2) \<Rightarrow>
             let st3 = addCostEntry (if wordCount < 50 \<and> hasPlan then ''writing_fresh_generate''
                                     else ''writing_expand'') st2;
                 refusal = detectRefusal rawText
             in if isRefusal refusal then
                  (if isRefusal (detectRefusal (cleanedText refusal)) then
                     expandLoop w ch target minAcc maxAttempts hasPlan current wordCount (attempts + 1) st3
                   else if countWords (cleanedText refusal) < 100 then
                     expandLoop w ch target minAcc maxAttempts hasPlan current wordCount (attempts + 1) st3
                   else if countWords (cleanedText refusal) > wordCount then
                     expandLoop w ch target minAcc maxAttempts hasPlan (cleanedText refusal)
                       (countWords (cleanedText refusal)) (attempts + 1) st3
                   else
                     expandLoop w ch target minAcc maxAttempts hasPlan current wordCount (attempts + 1) st3)
                else
                  (let stripped = stripExpandPreamble rawText;
                       expandedWordCount = countWords stripped
                   in if expandedWordCount > wordCount then
                        expandLoop w ch target minAcc maxAttempts hasPlan stripped expandedWordCount
                          (attempts + 1) st3
                      else (Inr current, st3)))
      else (Inr current, st))"
  by pat_completeness auto
termination
  by (relation "measure (\<lambda>(w, ch, target, minAcc, maxAttempts, hasPlan, current, wordCount, attempts, st).
        maxAttempts - attempts)") auto

declare expandLoop.simps [simp del]

definition expandIfNeeded ::
  "world \<Rightarrow> config \<Rightarrow> int \<Rightarrow> jsstring \<Rightarrow> int \<Rightarrow> nat \<Rightarrow> bool \<Rightarrow> session \<Rightarrow>
   (error + jsstring) \<times> session" where
  "expandIfNeeded w cfg ch cont target maxAttempts hasPlan st =
     expandLoop w ch target (minAcceptable cfg target) maxAttempts hasPlan cont (countWords cont) 0 st"

subsection \<open>Rewriting, editing, summary and continuity\<close>

text \<open>\<open>rewriteFromFeedback\<close>; an absent or empty \<open>existingDraft\<close> is falsy.\<close>

definition rewriteFromFeedback ::
  "world \<Rightarrow> jsstring option \<Rightarrow> session \<Rightarrow> (error + jsstring) \<times> session" where
  "rewriteFromFeedback w existingDraft st =
     (case generateText w st of
        (Inl m, st1) \<Rightarrow> (Inl (ProviderError m), st1)
      | (Inr txt, st1) \<Rightarrow>
          let st2 = addCostEntry ''writing_rewrite'' st1;
              refusal = detectRefusal txt;
              finalText = (if isRefusal refusal then cleanedText refusal else txt)
          in (case existingDraft of
                None \<Rightarrow> (Inr finalText, st2)
              | Some d \<Rightarrow>
                  if d = [] then (Inr finalText, st2)
                  else if 2 * countWords finalText < countWords d then (Inr d, st2)
                  else (Inr finalText, st2)))"

definition editChapter :: "world \<Rightarrow> session \<Rightarrow> (error + EditResult) \<times> session" where
  "editChapter w st =
     (case generateEditObject w st of
        (Inl m, st1) \<Rightarrow> (Inl (ProviderError m), st1)
      | (Inr editResult, st1) \<Rightarrow> (Inr editResult, addCostEntry ''editing'' st1))"

text \<open>\<open>generateChapterSummary\<close> catches a failed call and falls back on the first 500 code
  units of the chapter.\<close>

definition generateChapterSummary :: "world \<Rightarrow> jsstring \<Rightarrow> session \<Rightarrow> jsstring \<times> session" where
  "generateChapterSummary w cont st =
     (case generateText w st of
        (Inl m, st1) \<Rightarrow> (take 500 cont @ js ''...'', st1)
      | (Inr txt, st1) \<Rightarrow> (txt, addCostEntry ''summary'' st1))"

text \<open>\<open>content.slice(-2000)\<close>\<close>

definition lastChars :: "nat \<Rightarrow> jsstring \<Rightarrow> jsstring" where
  "lastChars n s = drop (length s - n) s"

definition maxSummaryWords :: nat where
  "maxSummaryWords = 2000"

text \<open>\<open>updateContinuity\<close>. Both \<open>try\<close> blocks are here: a failed summary call leaves the
  rolling summary as it was, a failed condensation call stores the summary as produced.\<close>

definition updateContinuity :: "world \<Rightarrow> config \<Rightarrow> ChapterContent \<Rightarrow> session \<Rightarrow> session" where
  "updateContinuity w cfg chapter st =
     (if hasContinuityModel cfg then
        (case generateText w st of
           (Inl m, st1) \<Rightarrow> st1\<lparr>previousChapterEnding := lastChars 2000 (c_content chapter)\<rparr>
         | (Inr newSummary, st1) \<Rightarrow>
             let st2 =
                   (if countWords newSummary > maxSummaryWords then
                      (case generateText w st1 of
                         (Inl m, s) \<Rightarrow> s\<lparr>rollingSummary := newSummary\<rparr>
                       | (Inr condensed, s) \<Rightarrow>
                           addCostEntry ''continuity_condense'' (s\<lparr>rollingSummary := condensed\<rparr>))
                    else st1\<lparr>rollingSummary := newSummary\<rparr>)
             in addCostEntry ''continuity''
                  (st2\<lparr>previousChapterEnding := lastChars 2000 (c_content chapter)\<rparr>))
      else st)"

definition getNextPendingChapter :: "session \<Rightarrow> int option" where
  "getNextPendingChapter st =
     (case outline st of
        None \<Rightarrow> None
      | Some chs \<Rightarrow>
          map_option number
            (List.find (\<lambda>ch. getStatus st (number ch) = Some Pending \<or>
                              getStatus st (number ch) = Some Failed) chs))"

definition checkWordTarget :: "config \<Rightarrow> nat \<Rightarrow> int \<Rightarrow> bool" where
  "checkWordTarget cfg wordCount target =
     (int wordCount \<ge> max (minAcceptable cfg target) (case minWords cfg of None \<Rightarrow> 500 | Some m \<Rightarrow> m))"

definition the_maxEditCycles :: "config \<Rightarrow> int" where
  "the_maxEditCycles cfg = (case maxEditCycles cfg of None \<Rightarrow> 3 | Some n \<Rightarrow> n)"

subsection \<open>\<open>generateChapter\<close>\<close>

text \<open>The edit cycles of \<open>generateChapter\<close>: the \<open>while (editCount < maxEditCycles)\<close> loop.
  It returns the draft, the edit history and the loop's \<open>approved\<close> flag.\<close>

function editLoop ::
  "world \<Rightarrow> config \<Rightarrow> int \<Rightarrow> int \<Rightarrow> int \<Rightarrow> nat \<Rightarrow> jsstring \<Rightarrow> EditCycleRecord list \<Rightarrow> session \<Rightarrow>
   (error + jsstring \<times> EditCycleRecord list \<times> bool) \<times> session" where
  "editLoop w cfg ch target maxEdit editCount draft hist st =
     (if int editCount < maxEdit then
        (case editChapter w st of
           (Inl e, st1) \<Rightarrow> (Inl e, st1)
         | (Inr editResult, st1) \<Rightarrow>
             let hist1 = hist @ [\<lparr>cycle = editCount + 1, h_approved = e_approved editResult\<rparr>];
                 st2 = emit (EditCycleEvent ch (editCount + 1) (e_approved editResult)) st1
             in if e_approved editResult then (Inr (draft, hist1, True), st2)
                else
                  (case rewriteFromFeedback w (Some draft) st2 of
                     (Inl e, st3) \<Rightarrow> (Inl e, st3)
                   | (Inr d1, st3) \<Rightarrow>
                       (case expandIfNeeded w cfg ch d1 target 3 True st3 of
                          (Inl e, st4) \<Rightarrow> (Inl e, st4)
                        | (Inr d2, st4) \<Rightarrow>
                            editLoop w cfg ch target maxEdit (editCount + 1) d2 hist1 st4)))
      else (Inr (draft, hist, False), st))"
  by pat_completeness auto
termination
  by (relation "measure (\<lambda>(w, cfg, ch, target, maxEdit, editCount, draft, hist, st).
        nat (maxEdit - int editCount))") auto

declare editLoop.simps [simp del]

text \<open>Steps 5 and 6 and the bookkeeping after them: summary, continuity, storing the
  chapter, the events, the phase.\<close>

definition finishChapter ::
  "world \<Rightarrow> config \<Rightarrow> ChapterPlan list \<Rightarrow> ChapterPlan \<Rightarrow> int \<Rightarrow> jsstring \<Rightarrow> EditCycleRecord list \<Rightarrow>
   session \<Rightarrow> ChapterResult \<times> session" where
  "finishChapter w cfg chs chapterPlan targetChapter draft editHistory st =
     (case generateChapterSummary w draft st of
        (summ, st1) \<Rightarrow>
          let chapter = \<lparr>c_number = targetChapter, c_title = title chapterPlan, c_content = draft,
                c_wordCount = countWords draft, c_summary = summ,
                c_editCount = length editHistory, c_approved = True\<rparr>;
              st2 = updateContinuity w cfg chapter st1;
              st3 = setStatus targetChapter Approved
                      (st2\<lparr>s_chapters := AList.update targetChapter chapter (s_chapters st2)\<rparr>);
              wordCount = countWords draft;
              meetsTarget = checkWordTarget cfg wordCount (targetWords chapterPlan);
              st4 = (if meetsTarget then st3
                     else emit (WordCountWarning targetChapter (targetWords chapterPlan) wordCount) st3);
              st5 = emit (ChapterComplete targetChapter wordCount) st4;
              st6 = (if length (s_chapters st5) = length chs then st5\<lparr>phase := Complete\<rparr> else st5)
          in (\<lparr>r_chapter = chapter, r_targetWords = targetWords chapterPlan,
               r_meetsTarget = meetsTarget, r_editHistory = editHistory\<rparr>, st6))"

text \<open>The \<open>try\<close> block of \<open>generateChapter\<close>.\<close>

definition generateChapterBody ::
  "world \<Rightarrow> config \<Rightarrow> ChapterPlan list \<Rightarrow> ChapterPlan \<Rightarrow> int \<Rightarrow> session \<Rightarrow>
   (error + ChapterResult) \<times> session" where
  "generateChapterBody w cfg chs chapterPlan targetChapter st =
     (case generateDetailedPlan w st of
        (Inl e, st1) \<Rightarrow> (Inl e, st1)
      | (Inr detailedPlan, st1) \<Rightarrow>
          (case writeChapter w detailedPlan (emit (ChapterPlanGenerated targetChapter) st1) of
             (Inl e, st2) \<Rightarrow> (Inl e, st2)
           | (Inr draft0, st2) \<Rightarrow>
               (case expandIfNeeded w cfg targetChapter draft0 (targetWords chapterPlan) 3 True
                       (emit (ChapterWritten targetChapter (countWords draft0)) st2) of
                  (Inl e, st3) \<Rightarrow> (Inl e, st3)
                | (Inr draft1, st3) \<Rightarrow>
                    (case editLoop w cfg targetChapter (targetWords chapterPlan)
                            (the_maxEditCycles cfg) 0 (stripRefusalContent draft1) [] st3 of
                       (Inl e, st4) \<Rightarrow> (Inl e, st4)
                     | (Inr (draft, editHistory, approved), st4) \<Rightarrow>
                         (case finishChapter w cfg chs chapterPlan targetChapter draft editHistory st4 of
                            (res, st5) \<Rightarrow> (Inr res, st5))))))"

text \<open>\<open>generateChapter\<close>: the guards, then the \<open>try\<close> block with its \<open>catch\<close>, which marks
  the chapter failed, emits \<open>chapter_failed\<close> and throws the error again.\<close>

definition generateChapter ::
  "world \<Rightarrow> config \<Rightarrow> int option \<Rightarrow> session \<Rightarrow> (error + ChapterResult) \<times> session" where
  "generateChapter w cfg requested st =
     (if outlineApproved st then
        (case (case requested of Some n \<Rightarrow> Some n | None \<Rightarrow> getNextPendingChapter st) of
           None \<Rightarrow> (Inl NoPendingChapters, st)
         | Some targetChapter \<Rightarrow>
             (case outline st of
                None \<Rightarrow> (Inl NoOutline, st)
              | Some chs \<Rightarrow>
                  (case List.find (\<lambda>c. number c = targetChapter) chs of
                     None \<Rightarrow> (Inl (ChapterNotFound targetChapter), st)
                   | Some chapterPlan \<Rightarrow>
                       (case generateChapterBody w cfg chs chapterPlan targetChapter
                               (setStatus targetChapter Generating st) of
                          (Inr res, st1) \<Rightarrow> (Inr res, st1)
                        | (Inl e, st1) \<Rightarrow>
                            (Inl e, emit (ChapterFailed targetChapter (error_message e))
                                      (setStatus targetChapter Failed st1))))))
      else (Inl OutlineNotApproved, st))"

subsection \<open>\<open>rewriteChapter\<close>, \<open>expandChapter\<close>, \<open>generateAllRemaining\<close>\<close>

definition rewriteChapterBody ::
  "world \<Rightarrow> config \<Rightarrow> ChapterPlan \<Rightarrow> int \<Rightarrow> session \<Rightarrow> (error + ChapterResult) \<times> session" where
  "rewriteChapterBody w cfg chapterPlan chapter st =
     (case generateDetailedPlan w st of
        (Inl e, st1) \<Rightarrow> (Inl e, st1)
      | (Inr detailedPlan, st1) \<Rightarrow>
          (case rewriteFromFeedback w None st1 of
             (Inl e, st2) \<Rightarrow> (Inl e, st2)
           | (Inr draft0, st2) \<Rightarrow>
               (case expandIfNeeded w cfg chapter draft0 (targetWords chapterPlan) 3 False st2 of
                  (Inl e, st3) \<Rightarrow> (Inl e, st3)
                | (Inr draft, st3) \<Rightarrow>
                    (case editChapter w st3 of
                       (Inl e, st4) \<Rightarrow> (Inl e, st4)
                     | (Inr editResult, st4) \<Rightarrow>
                         (case generateChapterSummary w draft st4 of
                            (summ, st5) \<Rightarrow>
                              let chapterContent = \<lparr>c_number = chapter, c_title = title chapterPlan,
                                    c_content = draft, c_wordCount = countWords draft,
                                    c_summary = summ, c_editCount = 1, c_approved = True\<rparr>;
                                  st6 = updateContinuity w cfg chapterContent st5;
                                  st7 = setStatus chapter Approved
                                          (st6\<lparr>s_chapters :=
                                             AList.update chapter chapterContent (s_chapters st6)\<rparr>)
                              in (Inr \<lparr>r_chapter = chapterContent,
                                       r_targetWords = targetWords chapterPlan,
                                       r_meetsTarget = checkWordTarget cfg (countWords draft)
                                                         (targetWords chapterPlan),
                                       r_editHistory = [\<lparr>cycle = 1, h_approved = e_approved editResult\<rparr>]\<rparr>,
                                  st7))))))"

definition rewriteChapter ::
  "world \<Rightarrow> config \<Rightarrow> int \<Rightarrow> session \<Rightarrow> (error + ChapterResult) \<times> session" where
  "rewriteChapter w cfg chapter st =
     (if outlineApproved st then
        (case outline st of
           None \<Rightarrow> (Inl NoOutline, st)
         | Some chs \<Rightarrow>
             (case List.find (\<lambda>c. number c = chapter) chs of
                None \<Rightarrow> (Inl (ChapterNotFound chapter), st)
              | Some chapterPlan \<Rightarrow>
                  (case rewriteChapterBody w cfg chapterPlan chapter (setStatus chapter Generating st) of
                     (Inr res, st1) \<Rightarrow> (Inr res, st1)
                   | (Inl e, st1) \<Rightarrow> (Inl e, setStatus chapter Failed st1))))
      else (Inl OutlineMustBeApprovedFirst, st))"

text \<open>\<open>expandChapter\<close> starts from the stored chapter; it reads no approval flag.\<close>

definition expandChapter ::
  "world \<Rightarrow> config \<Rightarrow> int \<Rightarrow> int option \<Rightarrow> session \<Rightarrow> (error + ChapterResult) \<times> session" where
  "expandChapter w cfg chapter targetWordsArg st =
     (case map_of (s_chapters st) chapter of
        None \<Rightarrow> (Inl (ChapterNotGenerated chapter), st)
      | Some existing \<Rightarrow>
          (case outline st of
             None \<Rightarrow> (Inl NoOutline, st)
           | Some chs \<Rightarrow>
               let target = (case targetWordsArg of
                               Some t \<Rightarrow> t
                             | None \<Rightarrow> (case List.find (\<lambda>c. number c = chapter) chs of
                                          Some chapterPlan \<Rightarrow> targetWords chapterPlan
                                        | None \<Rightarrow> 2000))
               in (case expandIfNeeded w cfg chapter (c_content existing) target 3 False
                          (setStatus chapter Generating st) of
                     (Inl e, st1) \<Rightarrow> (Inl e, st1)
                   | (Inr expanded, st1) \<Rightarrow>
                       (case generateChapterSummary w expanded st1 of
                          (summ, st2) \<Rightarrow>
                            let updatedChapter = existing\<lparr>c_content := expanded,
                                  c_wordCount := countWords expanded, c_summary := summ\<rparr>;
                                st3 = setStatus chapter Approved
                                        (st2\<lparr>s_chapters :=
                                           AList.update chapter updatedChapter (s_chapters st2)\<rparr>)
                            in (Inr \<lparr>r_chapter = updatedChapter, r_targetWords = target,
                                     r_meetsTarget = checkWordTarget cfg (c_wordCount updatedChapter) target,
                                     r_editHistory = []\<rparr>, st3)))))"

text \<open>The \<open>for\<close> loop of \<open>generateAllRemaining\<close> over the chapters of the outline, run to its
  end; the list holds the results it yields.\<close>

fun remainingLoop ::
  "world \<Rightarrow> config \<Rightarrow> ChapterPlan list \<Rightarrow> ChapterResult list \<Rightarrow> session \<Rightarrow>
   ChapterResult list \<times> session" where
  "remainingLoop w cfg [] results st = (results, st)"
| "remainingLoop w cfg (ch # rest) results st =
     (if getStatus st (number ch) = Some Approved then remainingLoop w cfg rest results st
      else if getStatus st (number ch) = Some Failed then remainingLoop w cfg rest results st
      else
        (case generateChapter w cfg (Some (number ch)) st of
           (Inr res, st1) \<Rightarrow> remainingLoop w cfg rest (results @ [res]) st1
         | (Inl e, st1) \<Rightarrow>
             remainingLoop w cfg rest results
               (emit (ChapterFailed (number ch) (error_message e))
                  (setStatus (number ch) Failed st1))))"

definition allDone :: "ChapterPlan list \<Rightarrow> session \<Rightarrow> bool" where
  "allDone chs st =
     list_all (\<lambda>ch. getStatus st (number ch) = Some Approved \<or>
                    getStatus st (number ch) = Some Failed) chs"

definition generateAllRemaining ::
  "world \<Rightarrow> config \<Rightarrow> session \<Rightarrow> (error + ChapterResult list) \<times> session" where
  "generateAllRemaining w cfg st =
     (if outlineApproved st then
        (case outline st of
           None \<Rightarrow> (Inl NoOutline, st)
         | Some chs \<Rightarrow>
             (case remainingLoop w cfg chs [] st of
                (results, st1) \<Rightarrow>
                  (Inr results, if allDone chs st1 then st1\<lparr>phase := Complete\<rparr> else st1)))
      else (Inl OutlineMustBeApprovedFirst, st))"

text \<open>What the helpers of a chapter operation leave alone: everything but the cost ledger,
  the event log and the call counter.\<close>

definition core ::
  "session \<Rightarrow> ChapterPlan list option \<times> bool \<times> (int \<times> ChapterContent) list \<times>
     (int \<times> ChapterStatus) list \<times> jsstring \<times> jsstring \<times> Phase" where
  "core st = (outline st, outlineApproved st, s_chapters st, chapterStatuses st,
              rollingSummary st, previousChapterEnding st, phase st)"

definition is_provider_error :: "error \<Rightarrow> bool" where
  "is_provider_error e = (case e of ProviderError m \<Rightarrow> True | _ \<Rightarrow> False)"


subsection \<open>Sample sessions and environments\<close>

definition default_config :: config where
  "default_config = \<lparr>maxEditCycles = None, tolerance = None, minWords = None,
                      hasContinuityModel = False\<rparr>"

definition stored_chapter :: ChapterContent where
  "stored_chapter = \<lparr>c_number = 1, c_title = js ''One'', c_content = js ''Rain fell softly.'',
      c_wordCount = 3, c_summary = js ''Rain.'', c_editCount = 1, c_approved = True\<rparr>"

text \<open>A session whose first chapter was generated and whose outline was then generated
  again: \<open>regenerateOutline\<close> clears the approval and resets the statuses, and keeps the
  chapters.\<close>

definition unapproved_session :: session where
  "unapproved_session = \<lparr>outline = Some [plan 1 ''One''], outlineApproved = False,
      s_chapters = [(1, stored_chapter)], chapterStatuses = [(1, Pending)],
      rollingSummary = [], previousChapterEnding = [], costs = [], phase = Writing,
      events = [], calls = 0\<rparr>"

definition expand_world :: world where
  "expand_world = \<lparr>gen_text = (\<lambda>k. if k = 0 then Inr (js ''Rain fell softly on the old tin roof.'')
                                    else Inr (js ''A summary.'')),
                    gen_plan = (\<lambda>k. Inl (js ''no plan'')),
                    gen_edit = (\<lambda>k. Inl (js ''no edit''))\<rparr>"





section \<open>Properties of the refusal classifier\<close>

lemma REFUSAL_PATTERNS_distinct: "distinct REFUSAL_PATTERNS"
  by code_simp

lemma two_of_filter:
  assumes "distinct xs" and "2 \<le> length (filter P xs)"
  shows "\<exists>p q. p \<noteq> q \<and> p \<in> set xs \<and> q \<in> set xs \<and> P p \<and> P q"
proof -
  obtain a b rest where f: "filter P xs = a # b # rest"
    using assms(2) by (cases "filter P xs"; cases "tl (filter P xs)") auto
  have "distinct (filter P xs)" using assms(1) by simp
  with f have "a \<noteq> b" by simp
  moreover have "a \<in> set (filter P xs)" "b \<in> set (filter P xs)" using f by simp_all
  ultimately show ?thesis by auto
qed

text \<open>
  C3, as amended. \<open>detectRefusal\<close> reports a refusal exactly when the trimmed text is not
  empty and at least two patterns of \<open>REFUSAL_PATTERNS\<close> match the first 500 code units of
  the trimmed, quote-normalised text; a refusal therefore has two distinct matching patterns,
  and a text that exactly one pattern of the library matches is returned as a non-refusal,
  changed only by trimming. What is counted is matching patterns, not phrases: the library
  has overlapping entries, and one phrase that two of them match makes a refusal (see the
  counterexample below).
\<close>

theorem detectRefusal_two_patterns:
  "(isRefusal (detectRefusal text) \<longleftrightarrow>
      trim text \<noteq> [] \<and> 2 \<le> matchCount (take 500 (normalizeQuotes (trim text)))) \<and>
   (isRefusal (detectRefusal text) \<longrightarrow>
      (\<exists>p q. p \<noteq> q \<and> p \<in> set REFUSAL_PATTERNS \<and> q \<in> set REFUSAL_PATTERNS \<and>
             rx_test p (take 500 (normalizeQuotes (trim text))) \<and>
             rx_test q (take 500 (normalizeQuotes (trim text))))) \<and>
   (matchCount (take 500 (normalizeQuotes (trim text))) = 1 \<longrightarrow>
      detectRefusal text = \<lparr>isRefusal = False, cleanedText = trim text\<rparr>)"
proof -
  let ?head = "take 500 (normalizeQuotes (trim text))"
  have a: "isRefusal (detectRefusal text) \<longleftrightarrow> trim text \<noteq> [] \<and> 2 \<le> matchCount ?head"
    by (auto simp: detectRefusal_def Let_def)
  have b: "\<exists>p q. p \<noteq> q \<and> p \<in> set REFUSAL_PATTERNS \<and> q \<in> set REFUSAL_PATTERNS \<and>
             rx_test p ?head \<and> rx_test q ?head" if "isRefusal (detectRefusal text)"
  proof -
    from that a have "2 \<le> length (filter (\<lambda>p. rx_test p ?head) REFUSAL_PATTERNS)"
      by (simp add: matchCount_def)
    from two_of_filter [OF REFUSAL_PATTERNS_distinct this] show ?thesis .
  qed
  have c: "detectRefusal text = \<lparr>isRefusal = False, cleanedText = trim text\<rparr>"
    if "matchCount ?head = 1"
    using that by (simp add: detectRefusal_def Let_def)
  from a b c show ?thesis by blast
qed

theorem detectRefusal_two_patterns_witness:
  "matchCount (take 500 (normalizeQuotes (trim dialogue_text))) = 1 \<and>
   detectRefusal dialogue_text =
     \<lparr>isRefusal = False, cleanedText = js ''If you'' @ [8217] @ js ''d like tea, sit.''\<rparr> \<and>
   isRefusal (detectRefusal apology_text) \<and>
   (\<exists>p q. p \<noteq> q \<and> p \<in> set REFUSAL_PATTERNS \<and> q \<in> set REFUSAL_PATTERNS \<and>
          rx_test p (take 500 (normalizeQuotes (trim apology_text))) \<and>
          rx_test q (take 500 (normalizeQuotes (trim apology_text))))"
proof -
  have h1: "matchCount (take 500 (normalizeQuotes (trim dialogue_text))) = 1"
    by code_simp
  have t: "trim dialogue_text = js ''If you'' @ [8217] @ js ''d like tea, sit.''"
    by code_simp
  have h2: "isRefusal (detectRefusal apology_text)"
    by code_simp
  from detectRefusal_two_patterns [of dialogue_text] h1 t
  have r1: "detectRefusal dialogue_text =
     \<lparr>isRefusal = False, cleanedText = js ''If you'' @ [8217] @ js ''d like tea, sit.''\<rparr>"
    by simp
  from detectRefusal_two_patterns [of apology_text] h2
  have r2: "\<exists>p q. p \<noteq> q \<and> p \<in> set REFUSAL_PATTERNS \<and> q \<in> set REFUSAL_PATTERNS \<and>
          rx_test p (take 500 (normalizeQuotes (trim apology_text))) \<and>
          rx_test q (take 500 (normalizeQuotes (trim apology_text)))"
    by blast
  from h1 r1 h2 r2 show ?thesis by blast
qed

text \<open>
  C3 as stated fails. The text \<open>"I can still help you carry the boxes," said Tom.\<close> holds
  one refusal-like phrase: without it no pattern matches. The phrase alone is matched by the
  entries \<open>/\bI can still help\b/i\<close> and \<open>/\bI \*?can\*? still (?:help|write|produce)\b/i\<close>
  (the 35th and the 36th), so the count is 2 and the text is classified as a refusal.
\<close>

theorem detectRefusal_one_phrase_counterexample:
  "matchCount (take 500 (normalizeQuotes (trim
      ([34] @ js '' you carry the boxes,'' @ [34] @ js '' said Tom.'')))) = 0 \<and>
   rx_test (REFUSAL_PATTERNS ! 34) help_phrase \<and>
   rx_test (REFUSAL_PATTERNS ! 35) help_phrase \<and>
   matchCount help_phrase = 2 \<and>
   matchCount (take 500 (normalizeQuotes (trim help_text))) = 2 \<and>
   isRefusal (detectRefusal help_text)"
  by code_simp

section \<open>Splitting into paragraphs and joining them\<close>

lemma is_space_NL [simp]: "is_space NL"
  by (simp add: is_space_def NL_def)

lemma trim_eq: "trim s = rtrim (ltrim s)"
  by (simp add: trim_def ltrim_def rtrim_def)

lemma rtrim_append:
  "rtrim (a @ b) = (if list_all is_space b then rtrim a else a @ rtrim b)"
  by (auto simp: rtrim_def dropWhile_append list_all_iff)

lemma ltrim_append:
  "ltrim (a @ b) = (if list_all is_space a then ltrim b else ltrim a @ b)"
  by (auto simp: ltrim_def dropWhile_append list_all_iff)

lemma rtrim_all: "list_all is_space s \<Longrightarrow> rtrim s = []"
  by (simp add: rtrim_def list_all_iff)

lemma ltrim_all: "list_all is_space s \<Longrightarrow> ltrim s = []"
  by (simp add: ltrim_def list_all_iff)

lemma rtrim_idem [simp]: "rtrim (rtrim s) = rtrim s"
  by (simp add: rtrim_def dropWhile_idem)

lemma ltrim_idem [simp]: "ltrim (ltrim s) = ltrim s"
  by (simp add: ltrim_def dropWhile_idem)

lemma ltrim_Nil_iff: "ltrim s = [] \<longleftrightarrow> list_all is_space s"
  by (simp add: ltrim_def list_all_iff dropWhile_eq_Nil_conv)

lemma rtrim_Nil_iff: "rtrim s = [] \<longleftrightarrow> list_all is_space s"
  by (simp add: rtrim_def list_all_iff dropWhile_eq_Nil_conv)

lemma ltrim_hd: "ltrim s \<noteq> [] \<Longrightarrow> \<not> is_space (hd (ltrim s))"
  unfolding ltrim_def by (rule hd_dropWhile)

lemma rtrim_last: "rtrim s \<noteq> [] \<Longrightarrow> \<not> is_space (last (rtrim s))"
  unfolding rtrim_def by (simp add: last_rev hd_dropWhile)

lemma ltrim_rtrim_commute: "ltrim (rtrim s) = rtrim (ltrim s)"
proof (induction s)
  case Nil
  then show ?case by (simp add: ltrim_def rtrim_def)
next
  case (Cons c s)
  show ?case
  proof (cases "is_space c")
    case True
    have "rtrim (c # s) = (if list_all is_space s then [] else c # rtrim s)"
      using rtrim_append [of "[c]" s] True by (auto simp: rtrim_def)
    then show ?thesis using True Cons
      by (auto simp: ltrim_def rtrim_all ltrim_all rtrim_Nil_iff list_all_iff dropWhile_eq_Nil_conv)
  next
    case False
    have r: "rtrim (c # s) = c # rtrim s"
      using rtrim_append [of "[c]" s] False by (auto simp: rtrim_def list_all_iff)
    show ?thesis using False by (simp add: r) (simp add: ltrim_def r)
  qed
qed

lemma trim_idem: "trim (trim s) = trim s"
  by (simp add: trim_eq ltrim_rtrim_commute)

lemma trim_ltrim: "trim (ltrim s) = trim s"
  by (simp add: trim_eq)

lemma trim_rtrim: "trim (rtrim s) = trim s"
  by (simp add: trim_eq ltrim_rtrim_commute)

lemma keep_para_ltrim: "keep_para (ltrim p) = keep_para p"
  by (simp add: keep_para_def trim_ltrim)

lemma keep_para_rtrim: "keep_para (rtrim p) = keep_para p"
  by (simp add: keep_para_def trim_rtrim)


lemma starts_nl_Cons [simp]: "starts_nl (c # s) = (c = NL)"
  by (simp add: starts_nl_def)

lemma starts_nl_Nil [simp]: "\<not> starts_nl []"
  by (simp add: starts_nl_def)

lemma ends_nl_Nil [simp]: "\<not> ends_nl []"
  by (simp add: ends_nl_def)

lemma ends_nl_Cons: "ends_nl (c # s) = (if s = [] then c = NL else ends_nl s)"
  by (cases s rule: rev_cases) (auto simp: ends_nl_def)

lemma nonn_Cons: "nonn (c # s) \<longleftrightarrow> \<not> (c = NL \<and> starts_nl s) \<and> nonn s"
  by (cases s) (auto simp: starts_nl_def)

lemma nonn_append:
  "nonn (a @ b) \<longleftrightarrow> nonn a \<and> nonn b \<and> \<not> (ends_nl a \<and> starts_nl b)"
proof (induction a)
  case Nil
  then show ?case by (simp add: ends_nl_def starts_nl_def)
next
  case (Cons c a)
  show ?case
  proof (cases a)
    case Nil
    then show ?thesis by (cases b) (auto simp: ends_nl_def starts_nl_def)
  next
    case (Cons d a')
    have e: "ends_nl (c # a) = ends_nl a"
      using Cons by (simp add: ends_nl_Cons)
    show ?thesis using Cons.IH Cons e by (auto simp: starts_nl_def)
  qed
qed


lemma split_paras_nonempty [simp]: "split_paras s \<noteq> []"
  by (induction s rule: split_paras.induct) (auto split: list.splits)

lemma dropWhile_NL_not_starts: "\<not> starts_nl (dropWhile (\<lambda>x. x = NL) s)"
  by (induction s) auto

text \<open>The paragraphs \<open>split\<close> returns: none holds a separator, none but the last ends and
  none but the first starts with a line feed.\<close>

lemma split_paras_inv:
  "list_all nonn (split_paras s) \<and>
   list_all (\<lambda>p. \<not> ends_nl p) (butlast (split_paras s)) \<and>
   list_all (\<lambda>p. \<not> starts_nl p) (tl (split_paras s)) \<and>
   list_all (\<lambda>p. p \<noteq> []) (butlast (tl (split_paras s))) \<and>
   (starts_nl (hd (split_paras s)) \<longrightarrow> starts_nl s) \<and>
   (hd (split_paras s) = [] \<and> tl (split_paras s) \<noteq> [] \<longrightarrow> starts_nl s)"
proof (induction s rule: split_paras.induct)
  case 1
  show ?case by simp
next
  case (2 c cs)
  show ?case
  proof (cases "c = NL \<and> (case cs of [] \<Rightarrow> False | d # _ \<Rightarrow> d = NL)")
    case True
    let ?r = "dropWhile (\<lambda>x. x = NL) cs"
    from True have sp: "split_paras (c # cs) = [] # split_paras ?r" by simp
    from 2(1) [OF True] have ih:
      "list_all nonn (split_paras ?r)"
      "list_all (\<lambda>p. \<not> ends_nl p) (butlast (split_paras ?r))"
      "list_all (\<lambda>p. \<not> starts_nl p) (tl (split_paras ?r))"
      "starts_nl (hd (split_paras ?r)) \<longrightarrow> starts_nl ?r"
      "list_all (\<lambda>p. p \<noteq> []) (butlast (tl (split_paras ?r)))"
      "hd (split_paras ?r) = [] \<and> tl (split_paras ?r) \<noteq> [] \<longrightarrow> starts_nl ?r"
      by simp_all
    have h: "\<not> starts_nl (hd (split_paras ?r))"
      using ih(4) dropWhile_NL_not_starts by blast
    have t: "list_all (\<lambda>p. \<not> starts_nl p) (split_paras ?r)"
      using h ih(3) by (cases "split_paras ?r") simp_all
    have d: "list_all (\<lambda>p. p \<noteq> []) (butlast (split_paras ?r))"
    proof (cases "split_paras ?r")
      case Nil
      then show ?thesis by simp
    next
      case (Cons q qs)
      have "qs \<noteq> [] \<longrightarrow> q \<noteq> []"
        using ih(6) Cons dropWhile_NL_not_starts [of cs] by auto
      with ih(5) Cons show ?thesis by simp
    qed
    show ?thesis unfolding sp using True ih t d by simp
  next
    case False
    obtain p ps where e: "split_paras cs = p # ps"
      by (cases "split_paras cs") simp_all
    from False e have sp: "split_paras (c # cs) = (c # p) # ps" by simp
    from 2(2) [OF False] e have ih:
      "nonn p" "list_all nonn ps"
      "list_all (\<lambda>p. \<not> ends_nl p) (butlast (p # ps))"
      "list_all (\<lambda>p. \<not> starts_nl p) ps"
      "starts_nl p \<longrightarrow> starts_nl cs"
      "p = [] \<and> ps \<noteq> [] \<longrightarrow> starts_nl cs"
      "list_all (\<lambda>p. p \<noteq> []) (butlast ps)"
      by simp_all
    have n: "nonn (c # p)"
    proof -
      have "\<not> (c = NL \<and> starts_nl p)"
      proof
        assume a: "c = NL \<and> starts_nl p"
        with ih(5) have "starts_nl cs" by simp
        with a False show False by (cases cs) simp_all
      qed
      with ih(1) show ?thesis by (simp add: nonn_Cons)
    qed
    have b: "list_all (\<lambda>p. \<not> ends_nl p) (butlast ((c # p) # ps))"
    proof (cases ps)
      case Nil
      then show ?thesis by simp
    next
      case (Cons q qs)
      have "\<not> ends_nl (c # p)"
      proof (cases p)
        case Nil
        with ih(6) Cons have "starts_nl cs" by simp
        with False have "c \<noteq> NL" by (cases cs) simp_all
        with Nil show ?thesis by (simp add: ends_nl_Cons)
      next
        case (Cons d p')
        with ih(3) \<open>ps = q # qs\<close> show ?thesis by (simp add: ends_nl_Cons)
      qed
      with ih(3) Cons show ?thesis by simp
    qed
    show ?thesis unfolding sp using n b ih by simp
  qed
qed

lemma proper_split_paras: "proper (split_paras s)"
  using split_paras_inv [of s] by (simp add: proper_def list_all_iff)

lemma split_paras_single: "nonn p \<Longrightarrow> split_paras p = [p]"
proof (induction p rule: split_paras.induct)
  case 1
  show ?case by simp
next
  case (2 c cs)
  from 2(3) have n: "\<not> (c = NL \<and> starts_nl cs)" "nonn cs" by (simp_all add: nonn_Cons)
  then have f: "\<not> (c = NL \<and> (case cs of [] \<Rightarrow> False | d # _ \<Rightarrow> d = NL))"
    by (cases cs) simp_all
  from 2(2) [OF f n(2)] f show ?case by simp
qed

lemma split_paras_sep:
  "nonn p \<Longrightarrow> \<not> ends_nl p \<Longrightarrow> \<not> starts_nl r \<Longrightarrow>
   split_paras (p @ [NL, NL] @ r) = p # split_paras r"
proof (induction p)
  case Nil
  have "dropWhile (\<lambda>x. x = NL) (NL # r) = r"
    using Nil(3) by (cases r) simp_all
  then show ?case by simp
next
  case (Cons c p)
  from Cons.prems have n: "\<not> (c = NL \<and> starts_nl p)" "nonn p" by (simp_all add: nonn_Cons)
  have e: "\<not> ends_nl p" "p = [] \<longrightarrow> c \<noteq> NL"
    using Cons.prems(2) by (auto simp: ends_nl_Cons split: if_splits)
  have f: "\<not> (c = NL \<and> (case p @ [NL, NL] @ r of [] \<Rightarrow> False | d # _ \<Rightarrow> d = NL))"
    using n(1) e(2) by (cases p) auto
  have ih: "split_paras (p @ [NL, NL] @ r) = p # split_paras r"
    using Cons.IH n(2) e(1) Cons.prems(3) by simp
  show ?case using f ih by simp
qed

lemma proper_Cons2:
  "proper (p # q # ps) \<longleftrightarrow>
     nonn p \<and> \<not> ends_nl p \<and> \<not> starts_nl q \<and> (ps \<noteq> [] \<longrightarrow> q \<noteq> []) \<and> proper (q # ps)"
  by (auto simp: proper_def)

lemma proper_single: "proper [p] = nonn p"
  by (simp add: proper_def)

lemma starts_nl_join2: "ks \<noteq> [] \<Longrightarrow> hd ks \<noteq> [] \<Longrightarrow> starts_nl (join2 ks) = starts_nl (hd ks)"
  by (cases ks rule: join2.cases) (auto simp: starts_nl_def split: list.splits)

lemma split_paras_join2:
  "proper ks \<Longrightarrow> ks \<noteq> [] \<Longrightarrow> split_paras (join2 ks) = ks"
proof (induction ks rule: join2.induct)
  case 1
  then show ?case by simp
next
  case (2 p)
  then show ?case by (simp add: proper_single split_paras_single)
next
  case (3 p q ps)
  from 3(2) have pr: "nonn p" "\<not> ends_nl p" "\<not> starts_nl q" "proper (q # ps)"
      "ps \<noteq> [] \<longrightarrow> q \<noteq> []"
    by (simp_all add: proper_Cons2)
  have s: "\<not> starts_nl (join2 (q # ps))"
  proof (cases q)
    case Nil
    with pr(5) show ?thesis by (cases ps) (simp_all add: starts_nl_def)
  next
    case (Cons d q')
    with pr(3) show ?thesis by (cases ps) (simp_all add: starts_nl_def)
  qed
  have "split_paras (p @ [NL, NL] @ join2 (q # ps)) = p # split_paras (join2 (q # ps))"
    using split_paras_sep [OF pr(1) pr(2) s] .
  with 3(1) pr(4) show ?case by simp
qed


lemma set_butlast_tl_subset: "set (butlast (tl ks)) \<subseteq> set (butlast ks)"
  by (cases ks) (auto dest: in_set_butlastD)

lemma set_butlast_filter: "set (butlast (filter f ks)) \<subseteq> set (butlast ks)"
  by (induction ks) (auto dest: in_set_butlastD split: if_splits)

lemma set_tl_filter: "set (tl (filter f ks)) \<subseteq> set (tl ks)"
proof (induction ks)
  case Nil
  show ?case by simp
next
  case (Cons k ks)
  have "set (tl (filter f ks)) \<subseteq> set ks"
    by (metis filter_is_subset list.set_sel(2) subset_iff tl_Nil)
  then show ?case by auto
qed

lemma set_butlast_tl_filter: "set (butlast (tl (filter f ks))) \<subseteq> set (butlast (tl ks))"
proof (induction ks)
  case Nil
  show ?case by simp
next
  case (Cons k ks)
  show ?case
  proof (cases "f k")
    case True
    then show ?thesis using set_butlast_filter [of f ks] by simp
  next
    case False
    then show ?thesis using Cons set_butlast_tl_subset [of ks] by auto
  qed
qed

lemma proper_filter: "proper ks \<Longrightarrow> proper (filter f ks)"
  unfolding proper_def list_all_iff
  using set_butlast_filter [of f ks] set_tl_filter [of f ks] set_butlast_tl_filter [of f ks]
  by auto

lemma ends_nl_append: "b \<noteq> [] \<Longrightarrow> ends_nl (a @ b) = ends_nl b"
  by (cases b rule: rev_cases) (auto simp: ends_nl_def)

lemma starts_nl_append: "a \<noteq> [] \<Longrightarrow> starts_nl (a @ b) = starts_nl a"
  by (cases a) auto

lemma ltrim_decomp: "takeWhile is_space p @ ltrim p = p"
  by (simp add: ltrim_def)

lemma rtrim_decomp: "rtrim p @ rev (takeWhile is_space (rev p)) = p"
proof -
  have "rev (takeWhile is_space (rev p) @ dropWhile is_space (rev p)) = p" by simp
  then show ?thesis unfolding rtrim_def rev_append .
qed

lemma nonn_ltrim: "nonn p \<Longrightarrow> nonn (ltrim p)"
  using nonn_append [of "takeWhile is_space p" "ltrim p"] by (simp add: ltrim_decomp)

lemma nonn_rtrim: "nonn p \<Longrightarrow> nonn (rtrim p)"
  using nonn_append [of "rtrim p" "rev (takeWhile is_space (rev p))"] by (simp add: rtrim_decomp)

lemma ends_nl_ltrim: "ltrim p \<noteq> [] \<Longrightarrow> ends_nl (ltrim p) = ends_nl p"
  using ends_nl_append [of "ltrim p" "takeWhile is_space p"] by (simp add: ltrim_decomp)

lemma starts_nl_rtrim: "rtrim p \<noteq> [] \<Longrightarrow> starts_nl (rtrim p) = starts_nl p"
  using starts_nl_append [of "rtrim p" "rev (takeWhile is_space (rev p))"] by (simp add: rtrim_decomp)

lemma ltrim_NLNL: "ltrim (NL # NL # s) = ltrim s"
  by (simp add: ltrim_def)

lemma ltrim_join2:
  "proper ks \<Longrightarrow> list_all keep_para ks \<Longrightarrow>
   ltrim (join2 ks) = [] \<or>
   (\<exists>ks'. ks' \<noteq> [] \<and> proper ks' \<and> list_all keep_para ks' \<and> join2 ks' = ltrim (join2 ks))"
proof (induction ks rule: join2.induct)
  case 1
  then show ?case by (simp add: ltrim_def)
next
  case (2 p)
  show ?case
  proof (cases "ltrim p = []")
    case True
    then show ?thesis by simp
  next
    case False
    have "proper [ltrim p]" using 2(1) by (simp add: proper_single nonn_ltrim)
    moreover have "list_all keep_para [ltrim p]" using 2(2) by (simp add: keep_para_ltrim)
    moreover have "join2 [ltrim p] = ltrim (join2 [p])" by simp
    ultimately show ?thesis by blast
  qed
next
  case (3 p q ps)
  from 3(2) have pr: "nonn p" "\<not> ends_nl p" "\<not> starts_nl q" "proper (q # ps)"
      "ps \<noteq> [] \<longrightarrow> q \<noteq> []"
    by (simp_all add: proper_Cons2)
  show ?case
  proof (cases "list_all is_space p")
    case True
    then have "ltrim (join2 (p # q # ps)) = ltrim (join2 (q # ps))"
      by (simp add: ltrim_append ltrim_NLNL)
    with 3(1) [OF pr(4)] 3(3) show ?thesis by simp
  next
    case False
    then have ne: "ltrim p \<noteq> []" by (simp add: ltrim_Nil_iff)
    have j: "join2 (ltrim p # q # ps) = ltrim (join2 (p # q # ps))"
      using False by (simp add: ltrim_append)
    have "proper (ltrim p # q # ps)"
      using pr ne by (simp add: proper_Cons2 nonn_ltrim ends_nl_ltrim)
    moreover have "list_all keep_para (ltrim p # q # ps)"
      using 3(3) by (simp add: keep_para_ltrim)
    ultimately show ?thesis using j by blast
  qed
qed

lemma join2_snoc: "ks \<noteq> [] \<Longrightarrow> join2 (ks @ [p]) = join2 ks @ [NL, NL] @ p"
  by (induction ks rule: join2.induct) simp_all

lemma proper_snoc:
  "ks \<noteq> [] \<Longrightarrow> proper (ks @ [p]) \<longleftrightarrow>
     proper ks \<and> nonn p \<and> \<not> ends_nl (last ks) \<and> \<not> starts_nl p \<and> list_all (\<lambda>p. p \<noteq> []) (tl ks)"
proof -
  assume ne: "ks \<noteq> []"
  then have a: "list_all (\<lambda>p. \<not> ends_nl p) ks \<longleftrightarrow>
      list_all (\<lambda>p. \<not> ends_nl p) (butlast ks) \<and> \<not> ends_nl (last ks)"
    by (cases ks rule: rev_cases) auto
  have b: "list_all (\<lambda>p. p \<noteq> []) (tl ks) \<Longrightarrow> list_all (\<lambda>p. p \<noteq> []) (butlast (tl ks))"
    by (auto simp: list_all_iff dest: in_set_butlastD)
  show ?thesis using ne a b by (auto simp: proper_def)
qed

lemma rtrim_join2:
  "proper ks \<Longrightarrow> list_all keep_para ks \<Longrightarrow>
   rtrim (join2 ks) = [] \<or>
   (\<exists>ks'. ks' \<noteq> [] \<and> proper ks' \<and> list_all keep_para ks' \<and> join2 ks' = rtrim (join2 ks))"
proof (induction ks rule: rev_induct)
  case Nil
  then show ?case by (simp add: rtrim_def)
next
  case (snoc p ks)
  show ?case
  proof (cases "ks = []")
    case True
    show ?thesis
    proof (cases "rtrim p = []")
      case True
      with \<open>ks = []\<close> show ?thesis by simp
    next
      case False
      have "proper [rtrim p]" using snoc(2) \<open>ks = []\<close> by (simp add: proper_single nonn_rtrim)
      moreover have "list_all keep_para [rtrim p]"
        using snoc(3) by (simp add: keep_para_rtrim)
      moreover have "join2 [rtrim p] = rtrim (join2 (ks @ [p]))" using \<open>ks = []\<close> by simp
      ultimately show ?thesis by blast
    qed
  next
    case False
    from snoc(2) False have pr: "proper ks" "nonn p" "\<not> ends_nl (last ks)" "\<not> starts_nl p"
        "list_all (\<lambda>p. p \<noteq> []) (tl ks)"
      by (simp_all add: proper_snoc)
    have k: "list_all keep_para ks" "keep_para p" using snoc(3) by simp_all
    show ?thesis
    proof (cases "list_all is_space p")
      case True
      then have "rtrim (join2 (ks @ [p])) = rtrim (join2 ks)"
        using False by (simp add: join2_snoc rtrim_append)
      with snoc(1) [OF pr(1) k(1)] show ?thesis by simp
    next
      case sp: False
      then have ne: "rtrim p \<noteq> []" by (simp add: rtrim_Nil_iff)
      have "rtrim ([NL, NL] @ p) = [NL, NL] @ rtrim p"
        using sp by (simp only: rtrim_append if_False)
      then have j: "join2 (ks @ [rtrim p]) = rtrim (join2 (ks @ [p]))"
        using False sp by (simp add: join2_snoc rtrim_append)
      have "proper (ks @ [rtrim p])"
        using pr ne False by (simp add: proper_snoc nonn_rtrim starts_nl_rtrim)
      moreover have "list_all keep_para (ks @ [rtrim p])"
        using k by (simp add: keep_para_rtrim)
      ultimately show ?thesis using j False by blast
    qed
  qed
qed

lemma stripRefusalContent_Nil: "stripRefusalContent [] = []"
  by (simp add: stripRefusalContent_def trim_def)

lemma stripRefusalContent_fix:
  assumes "ks \<noteq> []" "proper ks" "list_all keep_para ks" "trim (join2 ks) = join2 ks"
  shows "stripRefusalContent (join2 ks) = join2 ks"
proof -
  have "split_paras (join2 ks) = ks" using assms(1,2) by (simp add: split_paras_join2)
  moreover have "filter keep_para ks = ks" using assms(3) by (simp add: list_all_iff)
  ultimately show ?thesis using assms(4) by (simp add: stripRefusalContent_def)
qed

text \<open>
  C4. \<open>stripRefusalContent\<close> is idempotent: applied to its own result it changes nothing.
\<close>

theorem stripRefusalContent_idempotent:
  "stripRefusalContent (stripRefusalContent x) = stripRefusalContent x"
proof (cases "trim x = []")
  case True
  then show ?thesis by (simp add: stripRefusalContent_def)
next
  case False
  let ?ks = "filter keep_para (split_paras x)"
  let ?y = "trim (join2 ?ks)"
  have y: "stripRefusalContent x = ?y" using False by (simp add: stripRefusalContent_def)
  have p: "proper ?ks" by (simp add: proper_filter proper_split_paras)
  have k: "list_all keep_para ?ks" by (simp add: list_all_iff)
  have "stripRefusalContent ?y = ?y"
  proof (cases "?y = []")
    case True
    then show ?thesis by (simp add: stripRefusalContent_Nil)
  next
    case ny: False
    from ltrim_join2 [OF p k] ny obtain ks' where
      l: "ks' \<noteq> []" "proper ks'" "list_all keep_para ks'" "join2 ks' = ltrim (join2 ?ks)"
      by (auto simp: trim_eq rtrim_def)
    from rtrim_join2 [OF l(2) l(3)] ny l(4) obtain ks'' where
      r: "ks'' \<noteq> []" "proper ks''" "list_all keep_para ks''" "join2 ks'' = ?y"
      by (auto simp: trim_eq)
    have "trim (join2 ks'') = join2 ks''" using r(4) by (simp add: trim_idem)
    from stripRefusalContent_fix [OF r(1) r(2) r(3) this] r(4) show ?thesis by simp
  qed
  with y show ?thesis by simp
qed

theorem stripRefusalContent_idempotent_witness:
  "stripRefusalContent scrub_text = js ''Rain fell.'' @ [NL, NL] @ js ''The end.'' \<and>
   stripRefusalContent (stripRefusalContent scrub_text) = stripRefusalContent scrub_text"
proof -
  have a: "stripRefusalContent scrub_text = js ''Rain fell.'' @ [NL, NL] @ js ''The end.''"
    by code_simp
  have b: "stripRefusalContent (stripRefusalContent scrub_text) = stripRefusalContent scrub_text"
    by (rule stripRefusalContent_idempotent)
  from a b show ?thesis by (rule conjI)
qed

section \<open>Properties of the token budget\<close>

lemma requiredPass_included:
  "mset (included (requiredPass xs st)) = mset (included st) + mset (map key (filter required xs))"
  by (induction xs arbitrary: st) (simp_all add: include_item_def)

lemma requiredPass_dropped: "dropped (requiredPass xs st) = dropped st"
  by (induction xs arbitrary: st) (simp_all add: include_item_def)

lemma requiredPass_parts:
  "parts (requiredPass xs st) = parts st @ map content (filter required xs) \<and>
   included (requiredPass xs st) = included st @ map key (filter required xs)"
  by (induction xs arbitrary: st) (simp_all add: include_item_def)

lemma optionalPass_keys:
  "mset (included (optionalPass b xs st)) + mset (dropped (optionalPass b xs st)) =
   mset (included st) + mset (dropped st) + mset (map key (filter (\<lambda>i. \<not> required i) xs))"
  by (induction xs arbitrary: st) (simp_all add: include_item_def)

lemma optionalPass_included_mono: "set (included st) \<subseteq> set (included (optionalPass b xs st))"
proof (induction xs arbitrary: st)
  case Nil
  show ?case by simp
next
  case (Cons x xs)
  have "set (included st) \<subseteq> set (included (if required x then st
        else if int (total st + estimateTokens (content x)) \<le> b
             then include_item x st
             else st\<lparr>dropped := dropped st @ [key x]\<rparr>))"
    by (auto simp: include_item_def)
  also have "\<dots> \<subseteq> set (included (optionalPass b (x # xs) st))"
    using Cons [of "if required x then st
        else if int (total st + estimateTokens (content x)) \<le> b
             then include_item x st
             else st\<lparr>dropped := dropped st @ [key x]\<rparr>"] by simp
  finally show ?case .
qed

text \<open>The included keys and the parts of the text come from the same items, in the same
  order: an included item contributes its whole content.\<close>

lemma optionalPass_whole:
  "\<exists>inc. set inc \<subseteq> set xs \<and>
     included (optionalPass b xs st) = included st @ map key inc \<and>
     parts (optionalPass b xs st) = parts st @ map content inc"
proof (induction xs arbitrary: st)
  case Nil
  show ?case by simp
next
  case (Cons x xs)
  let ?st = "if required x then st
        else if int (total st + estimateTokens (content x)) \<le> b
             then include_item x st
             else st\<lparr>dropped := dropped st @ [key x]\<rparr>"
  from Cons [of ?st] obtain inc where i: "set inc \<subseteq> set xs"
      "included (optionalPass b xs ?st) = included ?st @ map key inc"
      "parts (optionalPass b xs ?st) = parts ?st @ map content inc"
    by blast
  show ?case
  proof (cases "\<not> required x \<and> int (total st + estimateTokens (content x)) \<le> b")
    case True
    have "set (x # inc) \<subseteq> set (x # xs)" using i(1) by auto
    moreover have "included (optionalPass b (x # xs) st) = included st @ map key (x # inc)"
      using True i(2) by (simp add: include_item_def)
    moreover have "parts (optionalPass b (x # xs) st) = parts st @ map content (x # inc)"
      using True i(3) by (simp add: include_item_def)
    ultimately show ?thesis by blast
  next
    case False
    have "set inc \<subseteq> set (x # xs)" using i(1) by auto
    moreover have "included (optionalPass b (x # xs) st) = included st @ map key inc"
      using False i(2) by auto
    moreover have "parts (optionalPass b (x # xs) st) = parts st @ map content inc"
      using False i(3) by auto
    ultimately show ?thesis by blast
  qed
qed

lemma mset_sortByPriority: "mset (sortByPriority items) = mset items"
  by (simp add: sortByPriority_def)

lemma mset_keys_partition:
  "mset (map key (filter required s)) + mset (map key (filter (\<lambda>i. \<not> required i) s)) =
   mset (map key s)"
  by (induction s) simp_all

lemma buildContext_keys:
  "mset (includedItems (buildContext items budget) @ droppedItems (buildContext items budget)) =
   mset (map key items)"
proof -
  let ?s = "sortByPriority items"
  have "image_mset key (mset ?s) = image_mset key (mset items)"
    by (simp only: mset_sortByPriority)
  then have "mset (map key ?s) = mset (map key items)" by simp
  with mset_keys_partition [of ?s] show ?thesis
    by (simp add: buildContext_def Let_def optionalPass_keys requiredPass_included
        requiredPass_dropped)
qed

lemma buildContext_required:
  assumes "i \<in> set items" "required i"
  shows "key i \<in> set (includedItems (buildContext items budget))"
proof -
  let ?s = "sortByPriority items"
  let ?e = "\<lparr>parts = [], included = [], dropped = [], total = 0\<rparr>"
  have "i \<in> set ?s" using assms(1) by (simp add: sortByPriority_def)
  with assms(2) have "key i \<in> set (included (requiredPass ?s ?e))"
    by (simp add: requiredPass_parts)
  then show ?thesis
    using optionalPass_included_mono [of "requiredPass ?s ?e" budget ?s]
    by (auto simp: buildContext_def Let_def)
qed

lemma buildContext_whole:
  "\<exists>inc. set inc \<subseteq> set items \<and>
     includedItems (buildContext items budget) = map key inc \<and>
     ctx_text (buildContext items budget) = join2 (map content inc)"
proof -
  let ?s = "sortByPriority items"
  let ?e = "\<lparr>parts = [], included = [], dropped = [], total = 0\<rparr>"
  from optionalPass_whole [of ?s budget "requiredPass ?s ?e"] obtain inc where
    i: "set inc \<subseteq> set ?s"
       "included (optionalPass budget ?s (requiredPass ?s ?e)) =
          included (requiredPass ?s ?e) @ map key inc"
       "parts (optionalPass budget ?s (requiredPass ?s ?e)) =
          parts (requiredPass ?s ?e) @ map content inc"
    by blast
  let ?inc = "filter required ?s @ inc"
  have "set ?inc \<subseteq> set items" using i(1) by (auto simp: sortByPriority_def)
  moreover have "includedItems (buildContext items budget) = map key ?inc"
    using i(2) by (simp add: buildContext_def Let_def requiredPass_parts)
  moreover have "ctx_text (buildContext items budget) = join2 (map content ?inc)"
    using i(3) by (simp add: buildContext_def Let_def requiredPass_parts)
  ultimately show ?thesis by blast
qed

text \<open>
  C6. \<open>buildContext\<close> includes every required item whatever the budget; each item's key is
  put into exactly one of \<open>includedItems\<close> and \<open>droppedItems\<close> (together they are a
  permutation of the items' keys, so their union is the set of all keys, and they are disjoint
  when the keys are pairwise different); and the text is made of whole contents.
\<close>

theorem buildContext_required_and_partition:
  "(\<forall>i \<in> set items. required i \<longrightarrow> key i \<in> set (includedItems (buildContext items budget))) \<and>
   mset (includedItems (buildContext items budget) @ droppedItems (buildContext items budget)) =
     mset (map key items) \<and>
   set (includedItems (buildContext items budget)) \<union> set (droppedItems (buildContext items budget)) =
     key ` set items \<and>
   (distinct (map key items) \<longrightarrow>
     set (includedItems (buildContext items budget)) \<inter>
     set (droppedItems (buildContext items budget)) = {}) \<and>
   (\<exists>inc. set inc \<subseteq> set items \<and>
     includedItems (buildContext items budget) = map key inc \<and>
     ctx_text (buildContext items budget) = join2 (map content inc))"
proof -
  let ?r = "buildContext items budget"
  have k: "mset (includedItems ?r @ droppedItems ?r) = mset (map key items)"
    by (rule buildContext_keys)
  have u: "set (includedItems ?r) \<union> set (droppedItems ?r) = key ` set items"
  proof -
    have "set (includedItems ?r @ droppedItems ?r) = set (map key items)"
      using k by (rule mset_eq_setD)
    then show ?thesis by simp
  qed
  have d: "set (includedItems ?r) \<inter> set (droppedItems ?r) = {}" if "distinct (map key items)"
  proof -
    have "distinct (includedItems ?r @ droppedItems ?r)"
      using mset_eq_imp_distinct_iff [OF k] that by blast
    then show ?thesis by simp
  qed
  have r: "\<forall>i \<in> set items. required i \<longrightarrow> key i \<in> set (includedItems ?r)"
    using buildContext_required by blast
  have w: "\<exists>inc. set inc \<subseteq> set items \<and> includedItems ?r = map key inc \<and>
     ctx_text ?r = join2 (map content inc)"
    by (rule buildContext_whole)
  from d have d': "distinct (map key items) \<longrightarrow>
     set (includedItems ?r) \<inter> set (droppedItems ?r) = {}" by (rule impI)
  from r k u d' w show ?thesis by (intro conjI)
qed

theorem buildContext_required_and_partition_witness:
  "js ''plan'' \<in> set (includedItems (buildContext budget_items 1)) \<and>
   distinct (map key budget_items) \<and>
   buildContext budget_items 1 =
     \<lparr>ctx_text = js ''twelve chars'', totalTokens = 3,
      includedItems = [js ''plan''], droppedItems = [js ''note'', js ''memory'']\<rparr> \<and>
   set (includedItems (buildContext budget_items 1)) \<inter>
     set (droppedItems (buildContext budget_items 1)) = {}"
proof -
  have m: "budget_items ! 1 \<in> set budget_items" "required (budget_items ! 1)"
       "key (budget_items ! 1) = js ''plan''"
    by (simp_all add: budget_items_def)
  have d: "distinct (map key budget_items)"
    by (simp add: budget_items_def js_def)
  have v: "buildContext budget_items 1 =
     \<lparr>ctx_text = js ''twelve chars'', totalTokens = 3,
      includedItems = [js ''plan''], droppedItems = [js ''note'', js ''memory'']\<rparr>"
    by code_simp
  from buildContext_required_and_partition [of budget_items 1] m(1,2)
  have r: "key (budget_items ! 1) \<in> set (includedItems (buildContext budget_items 1))"
    by blast
  from buildContext_required_and_partition [of budget_items 1] d
  have i: "set (includedItems (buildContext budget_items 1)) \<inter>
     set (droppedItems (buildContext budget_items 1)) = {}"
    by blast
  from r m(3) d v i show ?thesis by simp
qed

section \<open>Renumbering after outline edits\<close>

lemma renumber_other: "r \<notin> set rs \<Longrightarrow> renumber i rs h r = h r"
  by (induction rs arbitrary: i h) simp_all

lemma renumber_distinct:
  "distinct rs \<Longrightarrow> map (\<lambda>r. number (renumber i rs h r)) rs = map (\<lambda>k. i + 1 + int k) [0..<length rs]"
proof (induction rs arbitrary: i h)
  case Nil
  show ?case by simp
next
  case (Cons r rs)
  let ?h = "h(r := (h r)\<lparr>number := i + 1\<rparr>)"
  from Cons.prems have d: "r \<notin> set rs" "distinct rs" by simp_all
  have hd: "number (renumber (i + 1) rs ?h r) = i + 1"
    using d(1) by (simp add: renumber_other)
  have tl: "map (\<lambda>r. number (renumber (i + 1) rs ?h r)) rs =
            map (\<lambda>k. i + 1 + 1 + int k) [0..<length rs]"
    using Cons.IH [OF d(2)] .
  have sh: "map (\<lambda>k. i + 1 + int k) [0..<length (r # rs)] =
            (i + 1) # map (\<lambda>k. i + 1 + 1 + int k) [0..<length rs]"
    by (simp add: upt_conv_Cons map_Suc_upt [symmetric] del: upt_Suc)
  show ?case using hd tl sh by simp
qed

text \<open>With no reference twice in the array, the numbers after an edit are 1..N.\<close>

lemma renumberAll_contiguous:
  "distinct (chapters st) \<Longrightarrow>
   chapter_numbers (renumberAll st) = map (\<lambda>k. 1 + int k) [0..<length (chapters st)]"
  using renumber_distinct [of "chapters st" 0 "objs st"]
  by (simp add: chapter_numbers_def outline_chapters_def renumberAll_def comp_def)

lemma wf_store_setField: "wf_store (setField r f st) = wf_store st"
  by (simp add: wf_store_def setField_def)

lemma wf_store_applyRemove: "wf_store st \<Longrightarrow> wf_store (applyRemove ns st)"
  by (simp add: wf_store_def applyRemove_def list_all_iff)

lemma wf_store_applyUpdate1: "wf_store st \<Longrightarrow> wf_store (applyUpdate1 u st)"
  by (simp add: applyUpdate1_def Let_def wf_store_setField split: option.splits)

lemma distinct_insert_at:
  "distinct xs \<Longrightarrow> r \<notin> set xs \<Longrightarrow> distinct (take n xs @ [r] @ drop n xs)"
proof -
  assume d: "distinct xs" and r: "r \<notin> set xs"
  have "set (take n xs) \<inter> set (drop n xs) = {}"
    using d by (simp add: set_take_disj_set_drop_if_distinct)
  moreover have "r \<notin> set (take n xs)" "r \<notin> set (drop n xs)"
    using r by (auto dest: in_set_takeD in_set_dropD)
  ultimately show ?thesis using d by auto
qed

lemma wf_store_applyAdd1: "wf_store st \<Longrightarrow> wf_store (applyAdd1 dw a st)"
proof -
  assume w: "wf_store st"
  then have d: "distinct (chapters st)" and b: "\<forall>r \<in> set (chapters st). r < fresh st"
    by (simp_all add: wf_store_def list_all_iff)
  from b have f: "fresh st \<notin> set (chapters st)" by auto
  have b': "\<forall>r \<in> set (chapters st). r < Suc (fresh st)"
  proof
    fix r assume "r \<in> set (chapters st)"
    with b have "r < fresh st" by simp
    then show "r < Suc (fresh st)" by simp
  qed
  have t: "\<forall>r \<in> set (take n (chapters st)). r < Suc (fresh st)" for n
    using b' by (auto dest: in_set_takeD)
  have dr: "\<forall>r \<in> set (drop n (chapters st)). r < Suc (fresh st)" for n
    using b' by (auto dest: in_set_dropD)
  show ?thesis
    using d f t dr b' distinct_insert_at [OF d f]
    by (auto simp: applyAdd1_def Let_def wf_store_def list_all_iff split: option.splits)
qed

lemma wf_store_applyMerge1: "wf_store st \<Longrightarrow> wf_store (applyMerge1 m st)"
proof -
  assume w: "wf_store st"
  have k: "\<And>s P. wf_store s \<Longrightarrow> wf_store (s\<lparr>chapters := filter P (chapters s)\<rparr>)"
    by (simp add: wf_store_def list_all_iff)
  show ?thesis
    using w by (auto simp: applyMerge1_def Let_def wf_store_setField intro!: k split: option.splits)
qed

lemma wf_store_fold:
  "(\<And>x s. wf_store s \<Longrightarrow> wf_store (f x s)) \<Longrightarrow> wf_store st \<Longrightarrow> wf_store (fold f xs st)"
  by (induction xs arbitrary: st) simp_all

lemma findChapter_number: "findChapter st n = Some r \<Longrightarrow> number (objs st r) = n"
  by (auto simp: findChapter_def find_Some_iff)

lemma distinct_map_filter_find:
  "distinct ns \<Longrightarrow> distinct (List.map_filter (findChapter st) ns)"
proof (induction ns)
  case Nil
  show ?case by (simp add: map_filter_simps)
next
  case (Cons n ns)
  show ?case
  proof (cases "findChapter st n")
    case None
    with Cons show ?thesis by (simp add: map_filter_simps)
  next
    case (Some r)
    have "r \<notin> set (List.map_filter (findChapter st) ns)"
    proof
      assume "r \<in> set (List.map_filter (findChapter st) ns)"
      then obtain m where m: "m \<in> set ns" "findChapter st m = Some r"
        by (auto simp: map_filter_def)
      from findChapter_number [OF m(2)] findChapter_number [OF Some] have "m = n" by simp
      with m(1) Cons.prems show False by simp
    qed
    with Cons Some show ?thesis by (simp add: map_filter_simps)
  qed
qed

text \<open>Where \<open>reorderChapters\<close> is absent or names no chapter twice, the numbers after any
  combination of edits are 1..N.\<close>

lemma updateOutline_contiguous:
  assumes "wf_store st"
    and "case reorderChapters changes of None \<Rightarrow> True | Some ns \<Rightarrow> distinct ns"
  shows "chapter_numbers (updateOutline dw changes st) =
         map (\<lambda>k. 1 + int k) [0..<length (chapters (updateOutline dw changes st))]"
proof -
  let ?s1 = "applyOpt (removeChapters changes) applyRemove st"
  let ?s2 = "applyOpt (updateChapter changes) (\<lambda>us s. fold applyUpdate1 us s) ?s1"
  let ?s3 = "applyOpt (addChapter changes) (\<lambda>as s. fold (applyAdd1 dw) as s) ?s2"
  let ?s4 = "applyOpt (mergeChapters changes) (\<lambda>ms s. fold applyMerge1 ms s) ?s3"
  let ?s5 = "applyOpt (reorderChapters changes) applyReorder ?s4"
  have w1: "wf_store ?s1"
    using assms(1) by (simp add: applyOpt_def wf_store_applyRemove split: option.splits)
  have w2: "wf_store ?s2"
    using w1 wf_store_fold [of applyUpdate1, OF wf_store_applyUpdate1]
    by (simp add: applyOpt_def split: option.splits)
  have w3: "wf_store ?s3"
    using w2 wf_store_fold [of "applyAdd1 dw", OF wf_store_applyAdd1]
    by (simp add: applyOpt_def split: option.splits)
  have w4: "wf_store ?s4"
    using w3 wf_store_fold [of applyMerge1, OF wf_store_applyMerge1]
    by (simp add: applyOpt_def split: option.splits)
  have d5: "distinct (chapters ?s5)"
  proof (cases "reorderChapters changes")
    case None
    with w4 show ?thesis by (simp add: applyOpt_def wf_store_def)
  next
    case (Some ns)
    with assms(2) have "distinct ns" by simp
    then show ?thesis
      using Some by (simp add: applyOpt_def applyReorder_def distinct_map_filter_find)
  qed
  have u: "updateOutline dw changes st = renumberAll ?s5"
    by (simp add: updateOutline_def Let_def)
  have c: "chapters (renumberAll ?s5) = chapters ?s5" by (simp add: renumberAll_def)
  show ?thesis unfolding u c using renumberAll_contiguous [OF d5] .
qed

text \<open>
  C7. The renumbering writes through references. \<open>reorderChapters = [1, 1]\<close> puts the same
  chapter object into the array twice, the second write wins, and the outline reads
  2, 2 instead of 1, 2. Removing chapter 2 of three chapters does give 1, 2, the former
  chapter 3 being chapter 2.
\<close>

theorem updateOutline_reorder_duplicate:
  "chapter_numbers (updateOutline 1000 (no_changes\<lparr>reorderChapters := Some [1, 1]\<rparr>) outline3) = [2, 2] \<and>
   map title (outline_chapters (updateOutline 1000 (no_changes\<lparr>reorderChapters := Some [1, 1]\<rparr>) outline3))
     = [js ''One'', js ''One''] \<and>
   chapter_numbers (updateOutline 1000 (no_changes\<lparr>removeChapters := Some [2]\<rparr>) outline3) = [1, 2] \<and>
   map title (outline_chapters (updateOutline 1000 (no_changes\<lparr>removeChapters := Some [2]\<rparr>) outline3))
     = [js ''One'', js ''Three'']"
  by code_simp

section \<open>Frame properties of the session helpers\<close>

lemma core_addCostEntry [simp]: "core (addCostEntry s st) = core st"
  by (simp add: core_def addCostEntry_def)

lemma core_emit [simp]: "core (emit e st) = core st"
  by (simp add: core_def emit_def)


lemma is_provider_error_simp [simp]: "is_provider_error (ProviderError m)"
  by (simp add: is_provider_error_def)














section \<open>The approval gate\<close>

text \<open>Generating a chapter, generating all remaining chapters and rewriting a chapter fail
  with the approval error on an unapproved outline, and leave the state as it was.\<close>

lemma generateChapter_gate:
  "\<not> outlineApproved st \<Longrightarrow> generateChapter w cfg req st = (Inl OutlineNotApproved, st)"
  by (simp add: generateChapter_def)

lemma rewriteChapter_gate:
  "\<not> outlineApproved st \<Longrightarrow> rewriteChapter w cfg n st = (Inl OutlineMustBeApprovedFirst, st)"
  by (simp add: rewriteChapter_def)

lemma generateAllRemaining_gate:
  "\<not> outlineApproved st \<Longrightarrow> generateAllRemaining w cfg st = (Inl OutlineMustBeApprovedFirst, st)"
  by (simp add: generateAllRemaining_def)

lemma expandChapter_not_generated:
  "map_of (s_chapters st) n = None \<Longrightarrow> expandChapter w cfg n t st = (Inl (ChapterNotGenerated n), st)"
  by (simp add: expandChapter_def)

text \<open>
  C8. \<open>expandChapter\<close> has no approval gate. On a session whose outline is not approved
  and whose chapter 1 is stored, it makes two generation calls, replaces the content of
  chapter 1 and sets its status, and returns normally.
\<close>

theorem expandChapter_without_approval:
  "outlineApproved unapproved_session = False \<and>
   (case expandChapter expand_world default_config 1 (Some 6) unapproved_session of
      (Inl e, st') \<Rightarrow> False
    | (Inr res, st') \<Rightarrow>
        c_content (r_chapter res) = js ''Rain fell softly on the old tin roof.'' \<and>
        calls st' = 2 \<and> getStatus st' 1 = Some Approved \<and>
        map_of (s_chapters st') 1 = Some (r_chapter res))"
  by code_simp

section \<open>Failure of a generation call\<close>

lemma getStatus_setStatus [simp]:
  "getStatus (setStatus n s st) m = (if m = n then Some s else getStatus st m)"
  by (simp add: getStatus_def setStatus_def update_conv')

lemma getStatus_emit [simp]: "getStatus (emit e st) m = getStatus st m"
  by (simp add: getStatus_def emit_def)

lemma core_setStatus:
  "core (setStatus n s st) =
     (outline st, outlineApproved st, s_chapters st, AList.update n s (chapterStatuses st),
      rollingSummary st, previousChapterEnding st, phase st)"
  by (simp add: core_def setStatus_def)


lemma events_generateChapterSummary:
  "generateChapterSummary w c st = (r, st1) \<Longrightarrow> events st1 = events st"
  by (auto simp: generateChapterSummary_def generateText_def addCostEntry_def split: sum.splits)








end
